theory Spec2Isabelle
  imports Main "HOL-Library.Char_ord" "HOL-Library.List_Lexorder"
begin

section \<open>The data layer of TVUSVET: \<open>src/services/database.js\<close> and \<open>src/App.js\<close>\<close>

text \<open>
  \<open>DatabaseService\<close> forwards fixed SQL statements to the SQL plugin. The embedding has
  three layers:
  \<^item> the database file: five optional tables (a table that was never created is \<open>None\<close>),
    the \<open>AUTOINCREMENT\<close> counters and the connection's last inserted rowid;
  \<^item> the meaning of each SQL statement of the source, on that file, with the constraints
    that the \<open>CREATE TABLE\<close> statements of \<open>createTables\<close> declare;
  \<^item> the methods of \<open>DatabaseService\<close>, which thread a \<open>world\<close>: the field
    \<open>this.db\<close>, the file, the clock, the console, and the outcomes of the plugin calls to
    come (a call of \<open>Database.load\<close>, \<open>db.execute\<close> or \<open>db.select\<close> can be rejected
    by the plugin for reasons outside the program: the file is locked, the disk is full).
  A rejected promise is a value \<open>Inl e\<close>; every method returns its result together with
  the world it leaves.

  The strings of the columns other than \<open>exam_data\<close> are sequences of code units
  below 256. The text of \<open>exam_data\<close> and the strings inside a payload are sequences
  of the 16-bit code units of JavaScript, as natural numbers: an escape in a text can
  denote any of them. Ids are unbounded integers (SQLite's are 64-bit: the model is
  silent on a table with \<open>2^63 - 1\<close> rows); a timestamp is the reading of the engine's
  clock.
\<close>

subsection \<open>Values\<close>

type_synonym timestamp = nat

type_synonym js_string = "nat list"

text \<open>A string of code units below 256, as a string of JavaScript.\<close>

definition js :: "string \<Rightarrow> js_string" where
  "js s = map of_char s"

text \<open>
  The values that \<open>JSON.stringify\<close> can write: a number is kept as its JSON literal
  (no floating-point arithmetic is done on it anywhere in the program), an object is the
  sequence of its members.
\<close>

datatype json =
    JNull
  | JBool bool
  | JNum js_string
  | JStr js_string
  | JArr "json list"
  | JObj "(js_string \<times> json) list"

datatype error =
    LoadError             \<comment> \<open>\<open>Database.load\<close> was rejected\<close>
  | EngineFault           \<comment> \<open>the plugin rejected a statement for a reason outside the program\<close>
  | NoSuchTable
  | NotNullViolation
  | ForeignKeyViolation
  | UniqueViolation
  | NotAFunction          \<comment> \<open>\<open>TypeError: x is not a function\<close>\<close>
  | MissingArguments      \<comment> \<open>a method that takes arguments, called without: not followed further\<close>
  | JSONSyntaxError       \<comment> \<open>what \<open>JSON.parse\<close> throws; \<open>getExamById\<close> catches it\<close>

datatype log = Info string | Failure string error

subsection \<open>The database file\<close>

record patient_row =
  p_id :: int
  p_name :: string
  p_species :: "string option"
  p_breed :: "string option"
  p_owner_name :: "string option"
  p_created_at :: timestamp

record exam_row =
  e_id :: int
  e_patient_id :: int
  e_exam_type :: string
  e_exam_data :: "js_string option"
  e_created_at :: timestamp
  e_updated_at :: timestamp

record setting_row =
  s_key :: string
  s_value :: "string option"

record template_row =
  t_id :: int
  t_name :: string
  t_content :: string

record reference_value_row =
  r_id :: int
  r_exam_type :: string
  r_species :: string
  r_organ :: string
  r_measurement :: string
  r_min_value :: "string option"
  r_max_value :: "string option"
  r_unit :: "string option"

record database =
  patients_t :: "patient_row list option"
  exams_t :: "exam_row list option"
  settings_t :: "(int \<times> setting_row) list option"   \<comment> \<open>each row with its rowid\<close>
  templates_t :: "template_row list option"
  reference_values_t :: "reference_value_row list option"
  patients_seq :: int
  exams_seq :: int
  templates_seq :: int
  last_insert_rowid :: int

text \<open>The result descriptor of \<open>db.execute\<close>.\<close>

record exec_result =
  rowsAffected :: nat
  lastInsertId :: int

subsection \<open>The SQL statements of the source\<close>

text \<open>
  One constructor for each SQL text of \<open>database.js\<close>, with its positional parameters.
  A parameter that JavaScript may bind to \<open>null\<close> on a \<open>NOT NULL\<close> column is an option.

  The engine enforces what the tables declare: \<open>NOT NULL\<close>, \<open>UNIQUE\<close>, and the
  foreign key of \<open>exams\<close> with its \<open>ON DELETE CASCADE\<close> (the driver of the plugin
  turns foreign keys on for each connection). \<open>rowsAffected\<close> counts the rows of the
  statement's own table; \<open>lastInsertId\<close> is the connection's last inserted rowid.
\<close>

datatype stmt =
    CreatePatients
  | CreateExams
  | CreateSettings
  | CreateTemplates
  | CreateReferenceValues
  | InsertPatient "string option" "string option" "string option" "string option"
  | UpdatePatient "string option" "string option" "string option" "string option" int
  | DeletePatient int
  | InsertExam "int option" "string option" "js_string option"
  | UpdateExam "js_string option" int
  | DeleteExam int
  | ReplaceSetting string "string option"
  | InsertTemplate "string option" "string option"
  | UpdateTemplate "string option" "string option" int
  | DeleteTemplate int

text \<open>
  \<open>INTEGER PRIMARY KEY AUTOINCREMENT\<close>: the new rowid is one more than the largest rowid
  the table ever held. The table \<open>settings\<close> has a text key and a hidden rowid, one
  more than the largest in the table; \<open>INSERT OR REPLACE\<close> takes the new rowid, then
  deletes the row that has the key, then inserts.
\<close>

definition next_rowid :: "int \<Rightarrow> int list \<Rightarrow> int" where
  "next_rowid seq ids = fold max ids seq + 1"

definition done_with :: "nat \<Rightarrow> database \<Rightarrow> error + (exec_result \<times> database)" where
  "done_with n d = Inr (\<lparr>rowsAffected = n, lastInsertId = last_insert_rowid d\<rparr>, d)"

fun engine_execute :: "stmt \<Rightarrow> timestamp \<Rightarrow> database \<Rightarrow> error + (exec_result \<times> database)" where
  "engine_execute CreatePatients now d =
     done_with 0 (case patients_t d of None \<Rightarrow> d\<lparr>patients_t := Some []\<rparr> | Some _ \<Rightarrow> d)"
| "engine_execute CreateExams now d =
     done_with 0 (case exams_t d of None \<Rightarrow> d\<lparr>exams_t := Some []\<rparr> | Some _ \<Rightarrow> d)"
| "engine_execute CreateSettings now d =
     done_with 0 (case settings_t d of None \<Rightarrow> d\<lparr>settings_t := Some []\<rparr> | Some _ \<Rightarrow> d)"
| "engine_execute CreateTemplates now d =
     done_with 0 (case templates_t d of None \<Rightarrow> d\<lparr>templates_t := Some []\<rparr> | Some _ \<Rightarrow> d)"
| "engine_execute CreateReferenceValues now d =
     done_with 0 (case reference_values_t d of None \<Rightarrow> d\<lparr>reference_values_t := Some []\<rparr>
                  | Some _ \<Rightarrow> d)"
| "engine_execute (InsertPatient name species breed owner_name) now d =
     (case patients_t d of None \<Rightarrow> Inl NoSuchTable
      | Some ps \<Rightarrow>
        (case name of None \<Rightarrow> Inl NotNullViolation
         | Some n \<Rightarrow>
           let i = next_rowid (patients_seq d) (map p_id ps) in
           done_with 1 (d\<lparr>patients_t := Some (ps @ [\<lparr>p_id = i, p_name = n, p_species = species,
                             p_breed = breed, p_owner_name = owner_name, p_created_at = now\<rparr>]),
                           patients_seq := i, last_insert_rowid := i\<rparr>)))"
| "engine_execute (UpdatePatient name species breed owner_name i) now d =
     (case patients_t d of None \<Rightarrow> Inl NoSuchTable
      | Some ps \<Rightarrow>
        if \<forall>p \<in> set ps. p_id p \<noteq> i then done_with 0 d
        else (case name of None \<Rightarrow> Inl NotNullViolation
              | Some n \<Rightarrow>
                done_with (length (filter (\<lambda>p. p_id p = i) ps))
                  (d\<lparr>patients_t := Some (map (\<lambda>p. if p_id p = i
                        then p\<lparr>p_name := n, p_species := species, p_breed := breed,
                               p_owner_name := owner_name\<rparr> else p) ps)\<rparr>)))"
| "engine_execute (DeletePatient i) now d =
     (case patients_t d of None \<Rightarrow> Inl NoSuchTable
      | Some ps \<Rightarrow>
        if \<forall>p \<in> set ps. p_id p \<noteq> i then done_with 0 d
        else done_with (length (filter (\<lambda>p. p_id p = i) ps))
               (d\<lparr>patients_t := Some (filter (\<lambda>p. p_id p \<noteq> i) ps),
                  exams_t := map_option (filter (\<lambda>e. e_patient_id e \<noteq> i)) (exams_t d)\<rparr>))"
| "engine_execute (InsertExam patient_id exam_type exam_data) now d =
     (case exams_t d of None \<Rightarrow> Inl NoSuchTable
      | Some es \<Rightarrow>
        (case patient_id of None \<Rightarrow> Inl NotNullViolation
         | Some pid \<Rightarrow>
           (case exam_type of None \<Rightarrow> Inl NotNullViolation
            | Some ty \<Rightarrow>
              (case patients_t d of None \<Rightarrow> Inl NoSuchTable
               | Some ps \<Rightarrow>
                 if \<forall>p \<in> set ps. p_id p \<noteq> pid then Inl ForeignKeyViolation
                 else let i = next_rowid (exams_seq d) (map e_id es) in
                   done_with 1 (d\<lparr>exams_t := Some (es @ [\<lparr>e_id = i, e_patient_id = pid,
                                     e_exam_type = ty, e_exam_data = exam_data,
                                     e_created_at = now, e_updated_at = now\<rparr>]),
                                   exams_seq := i, last_insert_rowid := i\<rparr>)))))"
| "engine_execute (UpdateExam exam_data i) now d =
     (case exams_t d of None \<Rightarrow> Inl NoSuchTable
      | Some es \<Rightarrow>
        done_with (length (filter (\<lambda>e. e_id e = i) es))
          (d\<lparr>exams_t := Some (map (\<lambda>e. if e_id e = i
                then e\<lparr>e_exam_data := exam_data, e_updated_at := now\<rparr> else e) es)\<rparr>))"
| "engine_execute (DeleteExam i) now d =
     (case exams_t d of None \<Rightarrow> Inl NoSuchTable
      | Some es \<Rightarrow>
        done_with (length (filter (\<lambda>e. e_id e = i) es))
          (d\<lparr>exams_t := Some (filter (\<lambda>e. e_id e \<noteq> i) es)\<rparr>))"
| "engine_execute (ReplaceSetting k v) now d =
     (case settings_t d of None \<Rightarrow> Inl NoSuchTable
      | Some ss \<Rightarrow>
        let i = next_rowid 0 (map fst ss) in
        done_with 1 (d\<lparr>settings_t := Some (filter (\<lambda>(rowid, s). s_key s \<noteq> k) ss
                                            @ [(i, \<lparr>s_key = k, s_value = v\<rparr>)]),
                        last_insert_rowid := i\<rparr>))"
| "engine_execute (InsertTemplate name content) now d =
     (case templates_t d of None \<Rightarrow> Inl NoSuchTable
      | Some ts \<Rightarrow>
        (case name of None \<Rightarrow> Inl NotNullViolation
         | Some n \<Rightarrow>
           (case content of None \<Rightarrow> Inl NotNullViolation
            | Some c \<Rightarrow>
              if \<exists>t \<in> set ts. t_name t = n then Inl UniqueViolation
              else let i = next_rowid (templates_seq d) (map t_id ts) in
                done_with 1 (d\<lparr>templates_t := Some (ts @ [\<lparr>t_id = i, t_name = n, t_content = c\<rparr>]),
                                templates_seq := i, last_insert_rowid := i\<rparr>))))"
| "engine_execute (UpdateTemplate name content i) now d =
     (case templates_t d of None \<Rightarrow> Inl NoSuchTable
      | Some ts \<Rightarrow>
        if \<forall>t \<in> set ts. t_id t \<noteq> i then done_with 0 d
        else (case name of None \<Rightarrow> Inl NotNullViolation
              | Some n \<Rightarrow>
                (case content of None \<Rightarrow> Inl NotNullViolation
                 | Some c \<Rightarrow>
                   if \<exists>t \<in> set ts. t_id t \<noteq> i \<and> t_name t = n then Inl UniqueViolation
                   else done_with (length (filter (\<lambda>t. t_id t = i) ts))
                     (d\<lparr>templates_t := Some (map (\<lambda>t. if t_id t = i
                           then t\<lparr>t_name := n, t_content := c\<rparr> else t) ts)\<rparr>))))"
| "engine_execute (DeleteTemplate i) now d =
     (case templates_t d of None \<Rightarrow> Inl NoSuchTable
      | Some ts \<Rightarrow>
        done_with (length (filter (\<lambda>t. t_id t = i) ts))
          (d\<lparr>templates_t := Some (filter (\<lambda>t. t_id t \<noteq> i) ts)\<rparr>))"

subsection \<open>The result rows of the \<open>SELECT\<close> statements\<close>

text \<open>
  \<open>db.select\<close> returns one JavaScript object for each row, in the order of the scan (the
  order of the list) unless the statement has an \<open>ORDER BY\<close>. The \<open>exam_data\<close> column of
  an exam comes back as it is stored: a string, or \<open>null\<close>.
\<close>

record exam_object =
  o_id :: int
  o_patient_id :: int
  o_exam_type :: string
  o_exam_data :: json
  o_created_at :: timestamp
  o_updated_at :: timestamp

definition column_text :: "js_string option \<Rightarrow> json" where
  "column_text c = (case c of None \<Rightarrow> JNull | Some t \<Rightarrow> JStr t)"

definition row_object :: "exam_row \<Rightarrow> exam_object" where
  "row_object e = \<lparr>o_id = e_id e, o_patient_id = e_patient_id e, o_exam_type = e_exam_type e,
     o_exam_data = column_text (e_exam_data e), o_created_at = e_created_at e,
     o_updated_at = e_updated_at e\<rparr>"

text \<open>\<open>SELECT * FROM patients ORDER BY name ASC\<close>: the names are compared code unit by code unit.\<close>

definition select_patients :: "database \<Rightarrow> error + patient_row list" where
  "select_patients d =
     (case patients_t d of None \<Rightarrow> Inl NoSuchTable | Some ps \<Rightarrow> Inr (sort_key p_name ps))"

text \<open>\<open>SELECT * FROM exams WHERE patient_id = ?\<close>\<close>

definition select_exams_by_patient :: "int \<Rightarrow> database \<Rightarrow> error + exam_object list" where
  "select_exams_by_patient pid d =
     (case exams_t d of None \<Rightarrow> Inl NoSuchTable
      | Some es \<Rightarrow> Inr (map row_object (filter (\<lambda>e. e_patient_id e = pid) es)))"

text \<open>\<open>SELECT * FROM exams WHERE id = ?\<close>\<close>

definition select_exam_by_id :: "int \<Rightarrow> database \<Rightarrow> error + exam_object list" where
  "select_exam_by_id i d =
     (case exams_t d of None \<Rightarrow> Inl NoSuchTable
      | Some es \<Rightarrow> Inr (map row_object (filter (\<lambda>e. e_id e = i) es)))"

text \<open>\<open>SELECT * FROM settings\<close>\<close>

definition select_settings :: "database \<Rightarrow> error + setting_row list" where
  "select_settings d =
     (case settings_t d of None \<Rightarrow> Inl NoSuchTable | Some ss \<Rightarrow> Inr (map snd ss))"

text \<open>\<open>SELECT * FROM templates ORDER BY name ASC\<close>\<close>

definition select_templates :: "database \<Rightarrow> error + template_row list" where
  "select_templates d =
     (case templates_t d of None \<Rightarrow> Inl NoSuchTable | Some ts \<Rightarrow> Inr (sort_key t_name ts))"

subsection \<open>The world, and the three calls of the plugin\<close>

record world =
  this_db :: bool                \<comment> \<open>\<open>this.db\<close> holds a connection (it starts as \<open>null\<close>)\<close>
  disk :: database               \<comment> \<open>\<open>sqlite:tvusvet.db\<close>\<close>
  faults :: "bool list"          \<comment> \<open>for each plugin call to come: is it rejected?\<close>
  clock :: timestamp             \<comment> \<open>\<open>CURRENT_TIMESTAMP\<close>\<close>
  console :: "log list"

type_synonym 'a promise = "world \<Rightarrow> (error + 'a) \<times> world"

text \<open>
  Each plugin call takes the next outcome; when none is left, the call goes through.
  The console keeps the message and the error of each line (not the statement and the
  parameters that \<open>execute\<close> and \<open>query\<close> print with them). The clock is set from
  outside; no call moves it.
\<close>

definition draw :: "world \<Rightarrow> bool \<times> world" where
  "draw w = (case faults w of [] \<Rightarrow> (False, w) | f # fs \<Rightarrow> (f, w\<lparr>faults := fs\<rparr>))"

definition print :: "log \<Rightarrow> world \<Rightarrow> world" where
  "print l w = w\<lparr>console := console w @ [l]\<rparr>"

definition Database_load :: "unit promise" where
  "Database_load w = (case draw w of (True, w') \<Rightarrow> (Inl LoadError, w') | (False, w') \<Rightarrow> (Inr (), w'))"

definition db_execute :: "stmt \<Rightarrow> exec_result promise" where
  "db_execute s w =
     (case draw w of
        (True, w') \<Rightarrow> (Inl EngineFault, w')
      | (False, w') \<Rightarrow>
          (case engine_execute s (clock w') (disk w') of
             Inl e \<Rightarrow> (Inl e, w')
           | Inr (r, d) \<Rightarrow> (Inr r, w'\<lparr>disk := d\<rparr>)))"

definition db_select :: "(database \<Rightarrow> error + 'r) \<Rightarrow> 'r promise" where
  "db_select q w =
     (case draw w of
        (True, w') \<Rightarrow> (Inl EngineFault, w')
      | (False, w') \<Rightarrow> (q (disk w'), w'))"

subsection \<open>\<open>DatabaseService\<close>: connection, \<open>execute\<close>, \<open>query\<close>\<close>

definition open_db :: "unit promise" where
  "open_db w =
     (case Database_load w of
        (Inr _, w') \<Rightarrow>
          (Inr (), print (Info ''Banco de dados Tauri-SQL carregado com sucesso.'') (w'\<lparr>this_db := True\<rparr>))
      | (Inl e, w') \<Rightarrow> (Inl e, print (Failure ''Erro ao carregar o banco de dados:'' e) w'))"

text \<open>\<open>if (!this.db) await this.open();\<close>\<close>

definition ensure_open :: "unit promise" where
  "ensure_open w = (if this_db w then (Inr (), w) else open_db w)"

definition execute :: "stmt \<Rightarrow> exec_result promise" where
  "execute sql w =
     (case ensure_open w of
        (Inl e, w1) \<Rightarrow> (Inl e, w1)
      | (Inr _, w1) \<Rightarrow>
          (case db_execute sql w1 of
             (Inr result, w2) \<Rightarrow> (Inr result, w2)
           | (Inl e, w2) \<Rightarrow> (Inl e, print (Failure ''Erro ao executar:'' e) w2)))"

definition query :: "(database \<Rightarrow> error + 'r) \<Rightarrow> 'r promise" where
  "query sql w =
     (case ensure_open w of
        (Inl e, w1) \<Rightarrow> (Inl e, w1)
      | (Inr _, w1) \<Rightarrow>
          (case db_select sql w1 of
             (Inr results, w2) \<Rightarrow> (Inr results, w2)
           | (Inl e, w2) \<Rightarrow> (Inl e, print (Failure ''Erro ao consultar:'' e) w2)))"

subsection \<open>\<open>createTables\<close>\<close>

definition tablesSql :: "stmt list" where
  "tablesSql = [CreatePatients, CreateExams, CreateSettings, CreateTemplates, CreateReferenceValues]"

text \<open>
  The \<open>for\<close> loop of \<open>createTables\<close>, inside its \<open>try\<close>: a rejected \<open>await\<close> leaves the
  loop. The result is the error that left the loop, if any.
\<close>

fun run_statements :: "stmt list \<Rightarrow> world \<Rightarrow> error option \<times> world" where
  "run_statements [] w = (None, w)"
| "run_statements (sql # rest) w =
     (case db_execute sql w of
        (Inl e, w') \<Rightarrow> (Some e, w')
      | (Inr _, w') \<Rightarrow> run_statements rest w')"

definition createTables :: "unit promise" where
  "createTables w =
     (case ensure_open w of
        (Inl e, w1) \<Rightarrow> (Inl e, w1)
      | (Inr _, w1) \<Rightarrow>
          (case run_statements tablesSql w1 of
             (None, w2) \<Rightarrow> (Inr (), print (Info ''Tabelas criadas ou verificadas com sucesso.'') w2)
           | (Some e, w2) \<Rightarrow> (Inr (), print (Failure ''Erro ao criar tabelas:'' e) w2)))"

subsection \<open>Patients\<close>

record patient =
  pt_id :: int
  pt_name :: "string option"
  pt_species :: "string option"
  pt_breed :: "string option"
  pt_owner_name :: "string option"

definition getPatients :: "patient_row list promise" where
  "getPatients = query select_patients"

definition addPatient :: "patient \<Rightarrow> exec_result promise" where
  "addPatient patient = execute (InsertPatient (pt_name patient) (pt_species patient)
     (pt_breed patient) (pt_owner_name patient))"

definition updatePatient :: "patient \<Rightarrow> exec_result promise" where
  "updatePatient patient = execute (UpdatePatient (pt_name patient) (pt_species patient)
     (pt_breed patient) (pt_owner_name patient) (pt_id patient))"

definition deletePatient :: "int \<Rightarrow> exec_result promise" where
  "deletePatient i = execute (DeletePatient i)"

subsection \<open>Templates\<close>

record template =
  tp_id :: int
  tp_name :: "string option"
  tp_content :: "string option"

definition getTemplates :: "template_row list promise" where
  "getTemplates = query select_templates"

definition addTemplate :: "template \<Rightarrow> exec_result promise" where
  "addTemplate template = execute (InsertTemplate (tp_name template) (tp_content template))"

definition updateTemplate :: "template \<Rightarrow> exec_result promise" where
  "updateTemplate template =
     execute (UpdateTemplate (tp_name template) (tp_content template) (tp_id template))"

definition deleteTemplate :: "int \<Rightarrow> exec_result promise" where
  "deleteTemplate i = execute (DeleteTemplate i)"

subsection \<open>\<open>JSON.stringify\<close>\<close>

definition hex_digit :: "nat \<Rightarrow> nat" where
  "hex_digit n = of_char (''0123456789abcdef'' ! (n mod 16))"

text \<open>A code unit as \<open>u\<close> and four hexadecimal digits, after a backslash.\<close>

definition unicode_escape :: "nat \<Rightarrow> js_string" where
  "unicode_escape c =
     [0x5C, 0x75, hex_digit (c div 4096), hex_digit (c div 256), hex_digit (c div 16),
      hex_digit c]"

definition is_high :: "nat \<Rightarrow> bool" where
  "is_high c = (0xD800 \<le> c \<and> c \<le> 0xDBFF)"

definition is_low :: "nat \<Rightarrow> bool" where
  "is_low c = (0xDC00 \<le> c \<and> c \<le> 0xDFFF)"

text \<open>
  A string is written between double quotes. The quote, the backslash and the control
  characters are escaped, and so is a surrogate that is not half of a pair; every other
  code unit is written as it is.
\<close>

definition quote_unit :: "nat \<Rightarrow> js_string" where
  "quote_unit c =
     (if c = 0x22 then [0x5C, 0x22]
      else if c = 0x5C then [0x5C, 0x5C]
      else if c = 0x08 then [0x5C, of_char CHR ''b'']
      else if c = 0x0C then [0x5C, of_char CHR ''f'']
      else if c = 0x0A then [0x5C, of_char CHR ''n'']
      else if c = 0x0D then [0x5C, of_char CHR ''r'']
      else if c = 0x09 then [0x5C, of_char CHR ''t'']
      else if c < 0x20 then unicode_escape c
      else [c])"

fun quote_units :: "js_string \<Rightarrow> js_string" where
  "quote_units [] = []"
| "quote_units [c] = (if is_high c \<or> is_low c then unicode_escape c else quote_unit c)"
| "quote_units (c # d # cs) =
     (if is_high c then
        (if is_low d then c # d # quote_units cs
         else unicode_escape c @ quote_units (d # cs))
      else if is_low c then unicode_escape c @ quote_units (d # cs)
      else quote_unit c @ quote_units (d # cs))"

definition quote :: "js_string \<Rightarrow> js_string" where
  "quote s = 0x22 # quote_units s @ [0x22]"

fun JSON_stringify :: "json \<Rightarrow> js_string"
  and stringify_elements :: "json list \<Rightarrow> js_string"
  and stringify_members :: "(js_string \<times> json) list \<Rightarrow> js_string"
where
  "JSON_stringify JNull = js ''null''"
| "JSON_stringify (JBool b) = (if b then js ''true'' else js ''false'')"
| "JSON_stringify (JNum l) = l"
| "JSON_stringify (JStr s) = quote s"
| "JSON_stringify (JArr vs) = js ''['' @ stringify_elements vs @ js '']''"
| "JSON_stringify (JObj ms) = js ''{'' @ stringify_members ms @ js ''}''"
| "stringify_elements [] = []"
| "stringify_elements [v] = JSON_stringify v"
| "stringify_elements (v # v' # vs) = JSON_stringify v @ js '','' @ stringify_elements (v' # vs)"
| "stringify_members [] = []"
| "stringify_members [(k, v)] = quote k @ js '':'' @ JSON_stringify v"
| "stringify_members ((k, v) # m # ms) =
     quote k @ js '':'' @ JSON_stringify v @ js '','' @ stringify_members (m # ms)"

subsection \<open>\<open>JSON.parse\<close>\<close>

text \<open>
  \<open>JSON.parse\<close> returns a value or throws a \<open>SyntaxError\<close>. The functions of the
  recursive descent answer with a value and the rest of the text, with a failure, or,
  when the fuel for the depth of their calls is used up, not at all.
\<close>

datatype 'a parsed = Parsed 'a | SyntaxError

datatype 'a descent = Got 'a | Bad | NoFuel

definition is_ws :: "nat \<Rightarrow> bool" where
  "is_ws c = (c = 0x20 \<or> c = 0x09 \<or> c = 0x0A \<or> c = 0x0D)"

definition skip_ws :: "js_string \<Rightarrow> js_string" where
  "skip_ws = dropWhile is_ws"

definition is_digit :: "nat \<Rightarrow> bool" where
  "is_digit c = (of_char CHR ''0'' \<le> c \<and> c \<le> of_char CHR ''9'')"

definition hex_value :: "nat \<Rightarrow> nat option" where
  "hex_value c =
     (if of_char CHR ''0'' \<le> c \<and> c \<le> of_char CHR ''9'' then Some (c - 48)
      else if of_char CHR ''a'' \<le> c \<and> c \<le> of_char CHR ''f'' then Some (c - 87)
      else if of_char CHR ''A'' \<le> c \<and> c \<le> of_char CHR ''F'' then Some (c - 55)
      else None)"

definition hex4 :: "nat \<Rightarrow> nat \<Rightarrow> nat \<Rightarrow> nat \<Rightarrow> nat option" where
  "hex4 a b c d =
     (case (hex_value a, hex_value b, hex_value c, hex_value d) of
        (Some x, Some y, Some z, Some u) \<Rightarrow> Some (4096 * x + 256 * y + 16 * z + u)
      | _ \<Rightarrow> None)"

definition unescape :: "nat \<Rightarrow> nat option" where
  "unescape e =
     (if e = 0x22 then Some 0x22
      else if e = 0x5C then Some 0x5C
      else if e = of_char CHR ''/'' then Some (of_char CHR ''/'')
      else if e = of_char CHR ''b'' then Some 0x08
      else if e = of_char CHR ''f'' then Some 0x0C
      else if e = of_char CHR ''n'' then Some 0x0A
      else if e = of_char CHR ''r'' then Some 0x0D
      else if e = of_char CHR ''t'' then Some 0x09
      else None)"

definition prepend :: "nat \<Rightarrow> (js_string \<times> js_string) descent \<Rightarrow> (js_string \<times> js_string) descent"
  where
  "prepend c p = (case p of Got (s, rest) \<Rightarrow> Got (c # s, rest) | Bad \<Rightarrow> Bad | NoFuel \<Rightarrow> NoFuel)"

text \<open>The characters of a string, after its opening quote, up to the closing one.\<close>

fun parse_chars :: "js_string \<Rightarrow> (js_string \<times> js_string) descent" where
  "parse_chars [] = Bad"
| "parse_chars (c # cs) =
     (if c = 0x22 then Got ([], cs)
      else if c = 0x5C then
        (case cs of
           [] \<Rightarrow> Bad
         | e # cs' \<Rightarrow>
             if e = of_char CHR ''u'' then
               (case cs' of
                  h1 # h2 # h3 # h4 # cs'' \<Rightarrow>
                    (case hex4 h1 h2 h3 h4 of
                       None \<Rightarrow> Bad
                     | Some n \<Rightarrow> prepend n (parse_chars cs''))
                | _ \<Rightarrow> Bad)
             else (case unescape e of
                     None \<Rightarrow> Bad
                   | Some ch \<Rightarrow> prepend ch (parse_chars cs')))
      else if c < 0x20 then Bad
      else prepend c (parse_chars cs))"

text \<open>Numbers: \<open>-? (0 | [1-9][0-9]*) (. [0-9]+)? ([eE] [+-]? [0-9]+)?\<close>\<close>

definition digits1 :: "js_string \<Rightarrow> (js_string \<times> js_string) option" where
  "digits1 s = (if takeWhile is_digit s = [] then None
                else Some (takeWhile is_digit s, dropWhile is_digit s))"

definition lex_int :: "js_string \<Rightarrow> (js_string \<times> js_string) option" where
  "lex_int s = (case s of [] \<Rightarrow> None
                | c # cs \<Rightarrow> if c = of_char CHR ''0'' then Some ([c], cs) else digits1 s)"

definition lex_frac :: "js_string \<Rightarrow> (js_string \<times> js_string) option" where
  "lex_frac s =
     (case s of [] \<Rightarrow> Some ([], s)
      | c # cs \<Rightarrow>
          if c = of_char CHR ''.'' then
            (case digits1 cs of None \<Rightarrow> None | Some (ds, rest) \<Rightarrow> Some (c # ds, rest))
          else Some ([], s))"

definition lex_sign :: "js_string \<Rightarrow> js_string \<times> js_string" where
  "lex_sign s = (case s of [] \<Rightarrow> ([], s)
                 | c # cs \<Rightarrow> if c = of_char CHR ''+'' \<or> c = of_char CHR ''-'' then ([c], cs)
                            else ([], s))"

definition lex_exp :: "js_string \<Rightarrow> (js_string \<times> js_string) option" where
  "lex_exp s =
     (case s of [] \<Rightarrow> Some ([], s)
      | c # cs \<Rightarrow>
          if c = of_char CHR ''e'' \<or> c = of_char CHR ''E'' then
            (case digits1 (snd (lex_sign cs)) of
               None \<Rightarrow> None
             | Some (ds, rest) \<Rightarrow> Some (c # fst (lex_sign cs) @ ds, rest))
          else Some ([], s))"

definition lex_minus :: "js_string \<Rightarrow> js_string \<times> js_string" where
  "lex_minus s = (case s of [] \<Rightarrow> ([], s)
                  | c # cs \<Rightarrow> if c = of_char CHR ''-'' then ([c], cs) else ([], s))"

definition lex_number :: "js_string \<Rightarrow> (js_string \<times> js_string) option" where
  "lex_number s =
     (case lex_int (snd (lex_minus s)) of
        None \<Rightarrow> None
      | Some (i, r1) \<Rightarrow>
          (case lex_frac r1 of
             None \<Rightarrow> None
           | Some (f, r2) \<Rightarrow>
               (case lex_exp r2 of
                  None \<Rightarrow> None
                | Some (e, r3) \<Rightarrow> Some (fst (lex_minus s) @ i @ f @ e, r3))))"

definition literal :: "js_string \<Rightarrow> json \<Rightarrow> js_string \<Rightarrow> (json \<times> js_string) descent" where
  "literal l v s = (if take (length l) s = l then Got (v, drop (length l) s) else Bad)"

text \<open>
  An object takes its members in the order of the text; a key that comes again
  replaces the value of the member that is there.
\<close>

fun define_member :: "js_string \<Rightarrow> json \<Rightarrow> (js_string \<times> json) list \<Rightarrow> (js_string \<times> json) list"
  where
  "define_member k v [] = [(k, v)]"
| "define_member k v ((k', v') # ms) =
     (if k' = k then (k, v) # ms else (k', v') # define_member k v ms)"

definition object_of :: "(js_string \<times> json) list \<Rightarrow> json" where
  "object_of ms = JObj (fold (\<lambda>(k, v). define_member k v) ms [])"

fun parse_value :: "nat \<Rightarrow> js_string \<Rightarrow> (json \<times> js_string) descent"
  and parse_elements :: "nat \<Rightarrow> js_string \<Rightarrow> (json list \<times> js_string) descent"
  and parse_members :: "nat \<Rightarrow> js_string \<Rightarrow> ((js_string \<times> json) list \<times> js_string) descent"
where
  "parse_value 0 s = NoFuel"
| "parse_value (Suc n) s =
     (case skip_ws s of
        [] \<Rightarrow> Bad
      | c # cs \<Rightarrow>
          if c = of_char CHR ''n'' then literal (js ''null'') JNull (c # cs)
          else if c = of_char CHR ''t'' then literal (js ''true'') (JBool True) (c # cs)
          else if c = of_char CHR ''f'' then literal (js ''false'') (JBool False) (c # cs)
          else if c = 0x22 then
            (case parse_chars cs of
               Got (str, rest) \<Rightarrow> Got (JStr str, rest)
             | Bad \<Rightarrow> Bad
             | NoFuel \<Rightarrow> NoFuel)
          else if c = of_char CHR ''['' then
            (case skip_ws cs of
               [] \<Rightarrow> Bad
             | c' # cs' \<Rightarrow>
                 if c' = of_char CHR '']'' then Got (JArr [], cs')
                 else (case parse_elements n cs of
                         Got (vs, rest) \<Rightarrow> Got (JArr vs, rest)
                       | Bad \<Rightarrow> Bad
                       | NoFuel \<Rightarrow> NoFuel))
          else if c = of_char CHR ''{'' then
            (case skip_ws cs of
               [] \<Rightarrow> Bad
             | c' # cs' \<Rightarrow>
                 if c' = of_char CHR ''}'' then Got (JObj [], cs')
                 else (case parse_members n cs of
                         Got (ms, rest) \<Rightarrow> Got (object_of ms, rest)
                       | Bad \<Rightarrow> Bad
                       | NoFuel \<Rightarrow> NoFuel))
          else (case lex_number (c # cs) of
                  None \<Rightarrow> Bad
                | Some (l, rest) \<Rightarrow> Got (JNum l, rest)))"
| "parse_elements 0 s = NoFuel"
| "parse_elements (Suc n) s =
     (case parse_value n s of
        Got (v, rest) \<Rightarrow>
          (case skip_ws rest of
             [] \<Rightarrow> Bad
           | c # cs \<Rightarrow>
               if c = of_char CHR '','' then
                 (case parse_elements n cs of
                    Got (vs, rest') \<Rightarrow> Got (v # vs, rest')
                  | Bad \<Rightarrow> Bad
                  | NoFuel \<Rightarrow> NoFuel)
               else if c = of_char CHR '']'' then Got ([v], cs)
               else Bad)
      | Bad \<Rightarrow> Bad
      | NoFuel \<Rightarrow> NoFuel)"
| "parse_members 0 s = NoFuel"
| "parse_members (Suc n) s =
     (case skip_ws s of
        [] \<Rightarrow> Bad
      | q # s1 \<Rightarrow>
          if q \<noteq> 0x22 then Bad
          else
            (case parse_chars s1 of
               Got (k, s2) \<Rightarrow>
                 (case skip_ws s2 of
                    [] \<Rightarrow> Bad
                  | colon # s3 \<Rightarrow>
                      if colon \<noteq> of_char CHR '':'' then Bad
                      else
                        (case parse_value n s3 of
                           Got (v, s4) \<Rightarrow>
                             (case skip_ws s4 of
                                [] \<Rightarrow> Bad
                              | c # s5 \<Rightarrow>
                                  if c = of_char CHR '','' then
                                    (case parse_members n s5 of
                                       Got (ms, rest) \<Rightarrow> Got ((k, v) # ms, rest)
                                     | Bad \<Rightarrow> Bad
                                     | NoFuel \<Rightarrow> NoFuel)
                                  else if c = of_char CHR ''}'' then Got ([(k, v)], s5)
                                  else Bad)
                         | Bad \<Rightarrow> Bad
                         | NoFuel \<Rightarrow> NoFuel))
             | Bad \<Rightarrow> Bad
             | NoFuel \<Rightarrow> NoFuel))"

text \<open>
  The whole text is one value, with white space around it. Two units of fuel for each
  code unit and one more are enough for every text: the descent never comes back
  without an answer (\<open>JSON_parse_has_fuel\<close>).
\<close>

definition JSON_parse :: "js_string \<Rightarrow> json parsed" where
  "JSON_parse text =
     (case parse_value (Suc (length text + length text)) text of
        Got (v, rest) \<Rightarrow> if skip_ws rest = [] then Parsed v else SyntaxError
      | Bad \<Rightarrow> SyntaxError
      | NoFuel \<Rightarrow> SyntaxError)"

subsection \<open>The payloads that \<open>JSON.stringify\<close> and \<open>JSON.parse\<close> carry over\<close>

text \<open>
  A value of JavaScript that is made of \<open>null\<close>, booleans, finite numbers, strings,
  arrays and plain objects: every number is a literal of the grammar, and no object
  has a key twice.
\<close>

fun plain_value :: "json \<Rightarrow> bool"
  and plain_elements :: "json list \<Rightarrow> bool"
  and plain_members :: "(js_string \<times> json) list \<Rightarrow> bool"
where
  "plain_value JNull = True"
| "plain_value (JBool b) = True"
| "plain_value (JNum l) = (lex_number l = Some (l, []))"
| "plain_value (JStr s) = True"
| "plain_value (JArr vs) = plain_elements vs"
| "plain_value (JObj ms) = (distinct (map fst ms) \<and> plain_members ms)"
| "plain_elements [] = True"
| "plain_elements (v # vs) = (plain_value v \<and> plain_elements vs)"
| "plain_members [] = True"
| "plain_members ((k, v) # ms) = (plain_value v \<and> plain_members ms)"

text \<open>What follows a value in a text: nothing, a comma, or a closing bracket.\<close>

definition delimited :: "js_string \<Rightarrow> bool" where
  "delimited rest =
     (case rest of [] \<Rightarrow> True
      | c # _ \<Rightarrow> c = of_char CHR '','' \<or> c = of_char CHR '']'' \<or> c = of_char CHR ''}'')"

text \<open>The first character of the text of a value.\<close>

definition opens_value :: "nat \<Rightarrow> bool" where
  "opens_value c = (c = of_char CHR ''n'' \<or> c = of_char CHR ''t'' \<or> c = of_char CHR ''f''
     \<or> c = 0x22 \<or> c = of_char CHR ''['' \<or> c = of_char CHR ''{'' \<or> c = of_char CHR ''-''
     \<or> is_digit c)"

subsection \<open>Exams\<close>

record exam =
  ex_id :: int
  ex_patient_id :: "int option"
  ex_exam_type :: "string option"
  ex_exam_data :: json

definition getExamsByPatientId :: "int \<Rightarrow> exam_object list promise" where
  "getExamsByPatientId patientId = query (select_exams_by_patient patientId)"

definition addExam :: "exam \<Rightarrow> exec_result promise" where
  "addExam exam =
     (let examDataString = JSON_stringify (ex_exam_data exam)
      in execute (InsertExam (ex_patient_id exam) (ex_exam_type exam) (Some examDataString)))"

definition updateExam :: "exam \<Rightarrow> exec_result promise" where
  "updateExam exam =
     (let examDataString = JSON_stringify (ex_exam_data exam)
      in execute (UpdateExam (Some examDataString) (ex_id exam)))"

text \<open>
  \<open>JSON.parse\<close> turns its argument into a string first: \<open>null\<close> becomes the text
  \<open>null\<close>. (The column holds a string or \<open>null\<close>; the other cases are there for
  totality.) What it throws is caught: \<open>getExamById\<close> resolves whenever the query does.
\<close>

fun ToString :: "json \<Rightarrow> js_string" and join_elements :: "json list \<Rightarrow> js_string" where
  "ToString JNull = js ''null''"
| "ToString (JBool b) = (if b then js ''true'' else js ''false'')"
| "ToString (JNum l) = l"
| "ToString (JStr s) = s"
| "ToString (JArr vs) = join_elements vs"
| "ToString (JObj ms) = js ''[object Object]''"
| "join_elements [] = []"
| "join_elements [v] = (if v = JNull then [] else ToString v)"
| "join_elements (v # v' # vs) =
     (if v = JNull then [] else ToString v) @ js '','' @ join_elements (v' # vs)"

definition getExamById :: "int \<Rightarrow> exam_object option promise" where
  "getExamById i w =
     (case query (select_exam_by_id i) w of
        (Inl e, w1) \<Rightarrow> (Inl e, w1)
      | (Inr results, w1) \<Rightarrow>
          (case results of
             [] \<Rightarrow> (Inr None, w1)
           | r # _ \<Rightarrow>
               (case JSON_parse (ToString (o_exam_data r)) of
                  Parsed v \<Rightarrow> (Inr (Some (r\<lparr>o_exam_data := v\<rparr>)), w1)
                | SyntaxError \<Rightarrow>
                    (Inr (Some (r\<lparr>o_exam_data := JObj []\<rparr>)),
                     print (Failure ''Falha ao parsear exam_data:'' JSONSyntaxError) w1))))"

definition deleteExam :: "int \<Rightarrow> exec_result promise" where
  "deleteExam i = execute (DeleteExam i)"

subsection \<open>Settings\<close>

text \<open>
  \<open>getSettings\<close> fills an object literal. Its prototype is \<open>Object.prototype\<close>, whose
  \<open>__proto__\<close> is an accessor: as long as the object inherits it, an assignment to
  \<open>__proto__\<close> calls the setter, which sets the prototype when the value is \<open>null\<close>,
  ignores a string, and creates no property in either case.
\<close>

record js_object =
  inherits :: bool                                   \<comment> \<open>the prototype is \<open>Object.prototype\<close>\<close>
  own :: "string \<rightharpoonup> string option"       \<comment> \<open>own properties; the value \<open>None\<close> is \<open>null\<close>\<close>

definition empty_object :: js_object where
  "empty_object = \<lparr>inherits = True, own = Map.empty\<rparr>"

definition assign :: "js_object \<Rightarrow> string \<Rightarrow> string option \<Rightarrow> js_object" where
  "assign obj k v =
     (if k = ''__proto__'' \<and> inherits obj \<and> own obj k = None
      then (case v of None \<Rightarrow> obj\<lparr>inherits := False\<rparr> | Some _ \<Rightarrow> obj)
      else obj\<lparr>own := (own obj)(k \<mapsto> v)\<rparr>)"

text \<open>\<open>results.forEach(row => { settings[row.key] = row.value; })\<close>\<close>

definition getSettings :: "js_object promise" where
  "getSettings w =
     (case query select_settings w of
        (Inl e, w1) \<Rightarrow> (Inl e, w1)
      | (Inr results, w1) \<Rightarrow>
          (Inr (fold (\<lambda>row settings. assign settings (s_key row) (s_value row)) results
                  empty_object), w1))"

definition saveSettings :: "string \<Rightarrow> string option \<Rightarrow> exec_result promise" where
  "saveSettings key val = execute (ReplaceSetting key val)"

subsection \<open>\<open>App\<close>\<close>

text \<open>
  The effect of \<open>App\<close> runs once, after the first render, and calls \<open>db.init()\<close> with
  no argument, dropping the promise. \<open>db\<close> is the one instance of \<open>DatabaseService\<close>;
  a name is looked up among the methods of the class (the instance has the one field
  \<open>db\<close>, and what every object inherits has no \<open>init\<close>). The result of the lookup is
  what the call \<open>db.name()\<close> does: a name that the class does not define is
  \<open>undefined\<close>, and the call raises.
\<close>

datatype member = Callable "unit promise" | NeedsArguments

definition forget :: "'a promise \<Rightarrow> unit promise" where
  "forget m w = (case m w of (Inl e, w') \<Rightarrow> (Inl e, w') | (Inr _, w') \<Rightarrow> (Inr (), w'))"

definition DatabaseService :: "(string \<times> member) list" where
  "DatabaseService =
     [(''open'', Callable open_db),
      (''execute'', NeedsArguments),
      (''query'', NeedsArguments),
      (''createTables'', Callable createTables),
      (''getPatients'', Callable (forget getPatients)),
      (''addPatient'', NeedsArguments),
      (''updatePatient'', NeedsArguments),
      (''deletePatient'', NeedsArguments),
      (''getExamsByPatientId'', NeedsArguments),
      (''addExam'', NeedsArguments),
      (''updateExam'', NeedsArguments),
      (''getExamById'', NeedsArguments),
      (''deleteExam'', NeedsArguments),
      (''getSettings'', Callable (forget getSettings)),
      (''saveSettings'', NeedsArguments),
      (''getTemplates'', Callable (forget getTemplates)),
      (''addTemplate'', NeedsArguments),
      (''updateTemplate'', NeedsArguments),
      (''deleteTemplate'', NeedsArguments)]"

definition call :: "string \<Rightarrow> unit promise" where
  "call method w =
     (case map_of DatabaseService method of
        None \<Rightarrow> (Inl NotAFunction, w)
      | Some NeedsArguments \<Rightarrow> (Inl MissingArguments, w)
      | Some (Callable m) \<Rightarrow> m w)"

definition App_effect :: "unit promise" where
  "App_effect = call ''init''"

subsection \<open>Conditions under which the claims are stated\<close>

text \<open>No plugin call to come is rejected.\<close>

definition calm :: "world \<Rightarrow> bool" where
  "calm w = (True \<notin> set (faults w))"

text \<open>
  The foreign key of \<open>exams\<close>: the \<open>patient_id\<close> of every exam is the \<open>id\<close> of a
  patient.
\<close>

definition foreign_key_holds :: "database \<Rightarrow> bool" where
  "foreign_key_holds d =
     (case exams_t d of
        None \<Rightarrow> True
      | Some es \<Rightarrow>
          (case patients_t d of
             None \<Rightarrow> es = []
           | Some ps \<Rightarrow> list_all (\<lambda>e. e_patient_id e \<in> set (map p_id ps)) es))"

text \<open>A database to run the operations on: one patient with one exam, and one template.\<close>

definition rex :: patient_row where
  "rex = \<lparr>p_id = 1, p_name = ''Rex'', p_species = Some ''dog'', p_breed = None,
     p_owner_name = None, p_created_at = 10\<rparr>"

definition xray :: exam_row where
  "xray = \<lparr>e_id = 1, e_patient_id = 1, e_exam_type = ''xray'',
     e_exam_data = Some (JSON_stringify (JObj [(js ''notes'', JStr (js ''clear''))])),
     e_created_at = 11, e_updated_at = 11\<rparr>"

definition normal_abdomen :: template_row where
  "normal_abdomen = \<lparr>t_id = 1, t_name = ''abdomen'', t_content = ''Sem alteracoes.''\<rparr>"

definition clinic :: database where
  "clinic = \<lparr>patients_t = Some [rex], exams_t = Some [xray], settings_t = Some [],
     templates_t = Some [normal_abdomen], reference_values_t = Some [],
     patients_seq = 1, exams_seq = 1, templates_seq = 1, last_insert_rowid = 1\<rparr>"

definition at_clinic :: world where
  "at_clinic = \<lparr>this_db = False, disk = clinic, faults = [], clock = 20, console = []\<rparr>"

text \<open>A file in which no table exists yet.\<close>

definition blank :: database where
  "blank = \<lparr>patients_t = None, exams_t = None, settings_t = None, templates_t = None,
     reference_values_t = None, patients_seq = 0, exams_seq = 0, templates_seq = 0,
     last_insert_rowid = 0\<rparr>"

text \<open>
  The connection is open and the file has no table; the plugin accepts the first
  statement of \<open>createTables\<close> and rejects the second, and would accept any other.
\<close>

definition second_rejected :: world where
  "second_rejected = \<lparr>this_db = True, disk = blank, faults = [False, True], clock = 0,
     console = []\<rparr>"

text \<open>The first start: no connection yet, and a file in which no table exists.\<close>

definition first_start :: world where
  "first_start = \<lparr>this_db = False, disk = blank, faults = [], clock = 0, console = []\<rparr>"

text \<open>An exam of Rex whose stored payload is not JSON: two arrays are left open.\<close>

definition garbled :: exam_row where
  "garbled = \<lparr>e_id = 2, e_patient_id = 1, e_exam_type = ''echo'', e_exam_data = Some (js ''[[1''),
     e_created_at = 12, e_updated_at = 12\<rparr>"

definition at_clinic_garbled :: world where
  "at_clinic_garbled = at_clinic\<lparr>disk := clinic\<lparr>exams_t := Some [xray, garbled]\<rparr>\<rparr>"

section \<open>Properties\<close>

subsection \<open>The plugin calls when none is rejected\<close>

lemma draw_calm:
  assumes "calm w"
  shows "\<exists>fs. draw w = (False, w\<lparr>faults := fs\<rparr>) \<and> True \<notin> set fs"
proof (cases "faults w")
  case Nil
  then have "draw w = (False, w\<lparr>faults := []\<rparr>)" by (simp add: draw_def)
  then show ?thesis by auto
next
  case (Cons f fs)
  with assms have "draw w = (False, w\<lparr>faults := fs\<rparr>)" "True \<notin> set fs"
    by (auto simp: draw_def calm_def)
  then show ?thesis by blast
qed

lemma ensure_open_calm:
  assumes "calm w"
  shows "\<exists>w'. ensure_open w = (Inr (), w') \<and> calm w' \<and> disk w' = disk w \<and> clock w' = clock w
           \<and> this_db w'"
proof -
  from draw_calm [OF assms] obtain fs where "draw w = (False, w\<lparr>faults := fs\<rparr>)" "True \<notin> set fs"
    by blast
  then show ?thesis using assms
    by (simp add: ensure_open_def open_db_def Database_load_def print_def calm_def)
qed

lemma db_execute_calm:
  assumes "calm w"
  shows "\<exists>w'. calm w' \<and> disk w' = disk w \<and> clock w' = clock w \<and> this_db w' = this_db w \<and>
     db_execute s w = (case engine_execute s (clock w) (disk w) of
        Inl e \<Rightarrow> (Inl e, w') | Inr (r, d) \<Rightarrow> (Inr r, w'\<lparr>disk := d\<rparr>))"
proof -
  from draw_calm [OF assms] obtain fs where "draw w = (False, w\<lparr>faults := fs\<rparr>)" "True \<notin> set fs"
    by blast
  then show ?thesis
    by (intro exI [of _ "w\<lparr>faults := fs\<rparr>"]) (simp add: db_execute_def calm_def)
qed

lemma execute_calm:
  assumes "calm w" and "engine_execute s (clock w) (disk w) = Inr (r, d)"
  shows "\<exists>w'. execute s w = (Inr r, w') \<and> disk w' = d \<and> calm w' \<and> clock w' = clock w"
proof -
  from ensure_open_calm [OF assms(1)] obtain w1 where
    w1: "ensure_open w = (Inr (), w1)" "calm w1" "disk w1 = disk w" "clock w1 = clock w" by blast
  from db_execute_calm [OF w1(2), of s] obtain w2 where
    w2: "calm w2" "clock w2 = clock w1"
      "db_execute s w1 = (case engine_execute s (clock w1) (disk w1) of
        Inl e \<Rightarrow> (Inl e, w2) | Inr (r, d) \<Rightarrow> (Inr r, w2\<lparr>disk := d\<rparr>))" by blast
  with w1 assms(2) have "execute s w = (Inr r, w2\<lparr>disk := d\<rparr>)"
    by (simp add: execute_def)
  with w2 w1 show ?thesis by (simp add: calm_def)
qed

lemma query_calm:
  assumes "calm w"
  shows "\<exists>w'. query q w = (q (disk w), w') \<and> disk w' = disk w \<and> calm w' \<and> clock w' = clock w"
proof -
  from ensure_open_calm [OF assms(1)] obtain w1 where
    w1: "ensure_open w = (Inr (), w1)" "calm w1" "disk w1 = disk w" "clock w1 = clock w" by blast
  from draw_calm [OF w1(2)] obtain fs where fs: "draw w1 = (False, w1\<lparr>faults := fs\<rparr>)" "True \<notin> set fs"
    by blast
  show ?thesis
  proof (cases "q (disk w)")
    case (Inl e)
    with w1 fs show ?thesis
      by (simp add: query_def db_select_def print_def calm_def)
  next
    case (Inr rows)
    with w1 fs show ?thesis
      by (simp add: query_def db_select_def calm_def)
  qed
qed

lemma calm_at_clinic: "calm at_clinic"
  by (simp add: calm_def at_clinic_def)

lemma filter_no_match: "\<forall>x \<in> set xs. f x \<noteq> i \<Longrightarrow> filter (\<lambda>x. f x = i) xs = []"
  by (induction xs) auto

lemma filter_all_match: "\<forall>x \<in> set xs. f x \<noteq> i \<Longrightarrow> filter (\<lambda>x. f x \<noteq> i) xs = xs"
  by (induction xs) auto

lemma next_rowid_is_new: "x \<in> set ids \<Longrightarrow> x < next_rowid seq ids"
proof -
  assume "x \<in> set ids"
  then have "x \<le> Max (set (seq # ids))" by simp
  also have "\<dots> = fold max ids seq" by (rule Max.set_eq_fold)
  finally show ?thesis by (simp add: next_rowid_def)
qed

subsection \<open>\<open>JSON.parse\<close> after \<open>JSON.stringify\<close>\<close>

lemma hex_value_hex_digit: "hex_value (hex_digit k) = Some (k mod 16)"
proof -
  have "\<forall>j \<in> set [0..<16]. hex_value (hex_digit j) = Some j"
    by code_simp
  moreover have "hex_digit k = hex_digit (k mod 16)"
    by (simp add: hex_digit_def)
  ultimately show ?thesis by simp
qed

lemma four_hex_digits:
  assumes "c < 65536"
  shows "4096 * (c div 4096 mod 16) + 256 * (c div 256 mod 16) + 16 * (c div 16 mod 16)
           + c mod 16 = (c :: nat)"
proof -
  from assms have "c div 4096 < 16" by simp
  then have a: "c div 4096 mod 16 = c div 4096" by simp
  have b: "c mod 4096 = 256 * (c div 256 mod 16) + c mod 256"
    using mod_mult2_eq [of c 256 16] by simp
  have d: "c mod 256 = 16 * (c div 16 mod 16) + c mod 16"
    using mod_mult2_eq [of c 16 16] by simp
  have "4096 * (c div 4096 mod 16) + 256 * (c div 256 mod 16) + 16 * (c div 16 mod 16)
           + c mod 16
        = 4096 * (c div 4096) + (256 * (c div 256 mod 16) + (16 * (c div 16 mod 16) + c mod 16))"
    by (simp only: a add.assoc)
  also have "\<dots> = 4096 * (c div 4096) + (256 * (c div 256 mod 16) + c mod 256)"
    by (simp only: d [symmetric])
  also have "\<dots> = 4096 * (c div 4096) + c mod 4096"
    by (simp only: b [symmetric])
  also have "\<dots> = c" by simp
  finally show ?thesis .
qed

lemma hex4_unicode_escape:
  "c < 65536 \<Longrightarrow>
     hex4 (hex_digit (c div 4096)) (hex_digit (c div 256)) (hex_digit (c div 16)) (hex_digit c)
       = Some c"
  using four_hex_digits [of c] by (simp add: hex4_def hex_value_hex_digit)

lemma prepend_Got: "prepend c (Got (s, rest)) = Got (c # s, rest)"
  by (simp add: prepend_def)

lemma parse_chars_escape:
  "c < 65536 \<Longrightarrow> parse_chars (unicode_escape c @ s) = prepend c (parse_chars s)"
  by (simp add: unicode_escape_def hex4_unicode_escape)

lemma parse_chars_plain:
  "c \<noteq> 0x22 \<Longrightarrow> c \<noteq> 0x5C \<Longrightarrow> \<not> c < 0x20 \<Longrightarrow> parse_chars (c # s) = prepend c (parse_chars s)"
  by simp

lemma parse_chars_quote_unit:
  "parse_chars (quote_unit c @ s) = prepend c (parse_chars s)"
proof -
  consider (quote) "c = 0x22" | (backslash) "c = 0x5C"
    | (named) "c = 0x08 \<or> c = 0x0C \<or> c = 0x0A \<or> c = 0x0D \<or> c = 0x09"
    | (control) "c \<noteq> 0x08" "c \<noteq> 0x0C" "c \<noteq> 0x0A" "c \<noteq> 0x0D" "c \<noteq> 0x09" "c < 0x20"
    | (plain) "c \<noteq> 0x22" "c \<noteq> 0x5C" "\<not> c < 0x20"
    by linarith
  then show ?thesis
  proof cases
    case quote
    then show ?thesis by (simp add: quote_unit_def unescape_def)
  next
    case backslash
    then show ?thesis by (simp add: quote_unit_def unescape_def)
  next
    case named
    then show ?thesis by (elim disjE) (simp_all add: quote_unit_def unescape_def)
  next
    case control
    then have "quote_unit c = unicode_escape c" by (simp add: quote_unit_def)
    moreover from control have "c < 65536" by simp
    ultimately show ?thesis by (simp add: parse_chars_escape)
  next
    case plain
    then have "quote_unit c = [c]" by (simp add: quote_unit_def)
    with plain show ?thesis by (simp add: parse_chars_plain del: parse_chars.simps)
  qed
qed

lemma surrogate_is_plain:
  "is_high c \<or> is_low c \<Longrightarrow> c \<noteq> 0x22 \<and> c \<noteq> 0x5C \<and> \<not> c < 0x20 \<and> c < 65536"
  by (auto simp: is_high_def is_low_def)

lemma parse_chars_quote_units:
  "parse_chars (quote_units s @ 0x22 # rest) = Got (s, rest)"
proof (induction s rule: quote_units.induct)
  case 1
  then show ?case by simp
next
  case (2 c)
  show ?case
  proof (cases "is_high c \<or> is_low c")
    case True
    with surrogate_is_plain [of c] show ?thesis
      by (simp add: parse_chars_escape del: parse_chars.simps) (simp add: prepend_Got)
  next
    case False
    then show ?thesis
      by (simp add: parse_chars_quote_unit del: parse_chars.simps) (simp add: prepend_Got)
  qed
next
  case (3 c d cs)
  consider (pair) "is_high c" "is_low d" | (lone_high) "is_high c" "\<not> is_low d"
    | (lone_low) "\<not> is_high c" "is_low c" | (other) "\<not> is_high c" "\<not> is_low c"
    by blast
  then show ?case
  proof cases
    case pair
    from pair surrogate_is_plain [of c] surrogate_is_plain [of d]
    have "parse_chars (c # d # quote_units cs @ 0x22 # rest)
        = prepend c (prepend d (parse_chars (quote_units cs @ 0x22 # rest)))"
      by (simp add: parse_chars_plain del: parse_chars.simps)
    with pair "3.IH"(1) show ?thesis by (simp add: prepend_Got del: parse_chars.simps)
  next
    case lone_high
    with surrogate_is_plain [of c] "3.IH"(2) show ?thesis
      by (simp add: parse_chars_escape prepend_Got del: parse_chars.simps)
  next
    case lone_low
    with surrogate_is_plain [of c] "3.IH"(3) show ?thesis
      by (simp add: parse_chars_escape prepend_Got del: parse_chars.simps)
  next
    case other
    with "3.IH"(4) show ?thesis
      by (simp add: parse_chars_quote_unit prepend_Got del: parse_chars.simps)
  qed
qed

lemma takeWhile_digits_delimited:
  "delimited rest \<Longrightarrow> takeWhile is_digit (s @ rest) = takeWhile is_digit s"
  by (induction s) (auto simp: delimited_def is_digit_def split: list.splits)

lemma dropWhile_digits_delimited:
  "delimited rest \<Longrightarrow> dropWhile is_digit (s @ rest) = dropWhile is_digit s @ rest"
  by (induction s) (auto simp: delimited_def is_digit_def split: list.splits)

lemma digits1_append:
  "digits1 s = Some (ds, r) \<Longrightarrow> delimited rest \<Longrightarrow> digits1 (s @ rest) = Some (ds, r @ rest)"
  by (auto simp: digits1_def takeWhile_digits_delimited dropWhile_digits_delimited
      split: if_splits)

lemma lex_int_append:
  "lex_int s = Some (a, r) \<Longrightarrow> delimited rest \<Longrightarrow> lex_int (s @ rest) = Some (a, r @ rest)"
  by (cases s) (auto simp: lex_int_def digits1_append [where s = "_ # _", simplified]
      split: if_splits)

lemma lex_frac_append:
  "lex_frac s = Some (a, r) \<Longrightarrow> delimited rest \<Longrightarrow> lex_frac (s @ rest) = Some (a, r @ rest)"
  by (cases s) (auto simp: lex_frac_def delimited_def digits1_append
      split: if_splits option.splits list.splits)

lemma lex_sign_append:
  "s \<noteq> [] \<Longrightarrow> lex_sign (s @ rest) = (fst (lex_sign s), snd (lex_sign s) @ rest)"
  by (cases s) (auto simp: lex_sign_def)

lemma lex_exp_append:
  assumes "lex_exp s = Some (a, r)" and "delimited rest"
  shows "lex_exp (s @ rest) = Some (a, r @ rest)"
proof (cases s)
  case Nil
  with assms show ?thesis
    by (auto simp: lex_exp_def delimited_def split: list.splits)
next
  case (Cons c cs)
  show ?thesis
  proof (cases "c = 0x65 \<or> c = 0x45")
    case False
    with Cons assms show ?thesis by (auto simp: lex_exp_def)
  next
    case True
    with Cons assms(1) obtain ds where
      ds: "digits1 (snd (lex_sign cs)) = Some (ds, r)" "a = c # fst (lex_sign cs) @ ds"
      by (auto simp: lex_exp_def split: option.splits)
    then have "cs \<noteq> []" by (auto simp: digits1_def lex_sign_def)
    then have "lex_sign (cs @ rest) = (fst (lex_sign cs), snd (lex_sign cs) @ rest)"
      by (rule lex_sign_append)
    with True Cons ds digits1_append [OF ds(1) assms(2)] show ?thesis
      by (auto simp: lex_exp_def)
  qed
qed

lemma lex_minus_append:
  "s \<noteq> [] \<Longrightarrow> lex_minus (s @ rest) = (fst (lex_minus s), snd (lex_minus s) @ rest)"
  by (cases s) (auto simp: lex_minus_def)

lemma lex_number_append:
  assumes "lex_number s = Some (a, r)" and "delimited rest"
  shows "lex_number (s @ rest) = Some (a, r @ rest)"
proof -
  from assms(1) have "s \<noteq> []" by (auto simp: lex_number_def lex_minus_def lex_int_def)
  then have m: "lex_minus (s @ rest) = (fst (lex_minus s), snd (lex_minus s) @ rest)"
    by (rule lex_minus_append)
  from assms(1) obtain i r1 f r2 e where
    parts: "lex_int (snd (lex_minus s)) = Some (i, r1)" "lex_frac r1 = Some (f, r2)"
      "lex_exp r2 = Some (e, r)" "a = fst (lex_minus s) @ i @ f @ e"
    by (auto simp: lex_number_def split: option.splits)
  from parts(1-3) assms(2) m parts(4) show ?thesis
    by (simp add: lex_number_def lex_int_append lex_frac_append lex_exp_append)
qed

lemma number_starts:
  assumes "lex_number l = Some (a, r)"
  shows "\<exists>c cs. l = c # cs \<and> (c = 0x2D \<or> is_digit c)"
proof (cases l)
  case Nil
  with assms show ?thesis by (simp add: lex_number_def lex_minus_def lex_int_def)
next
  case (Cons c cs)
  show ?thesis
  proof (cases "c = 0x2D")
    case True
    with Cons show ?thesis by simp
  next
    case False
    with Cons assms have "lex_int (c # cs) \<noteq> None"
      by (auto simp: lex_number_def lex_minus_def split: option.splits)
    then have "is_digit c"
      by (auto simp: lex_int_def digits1_def is_digit_def split: if_splits)
    with Cons show ?thesis by simp
  qed
qed

lemma skip_ws_no_ws: "\<not> is_ws c \<Longrightarrow> skip_ws (c # cs) = c # cs"
  by (simp add: skip_ws_def)

lemma digit_is_no_other:
  "is_digit c \<Longrightarrow> \<not> is_ws c \<and> c \<noteq> 0x6E \<and> c \<noteq> 0x74 \<and> c \<noteq> 0x66 \<and> c \<noteq> 0x22
     \<and> c \<noteq> 0x5B \<and> c \<noteq> 0x7B \<and> c \<noteq> 0x5D \<and> c \<noteq> 0x7D \<and> c \<noteq> 0x2C"
  by (auto simp: is_digit_def is_ws_def)

lemma parse_value_number:
  assumes "c = 0x2D \<or> is_digit c"
  shows "parse_value (Suc n) (c # cs)
     = (case lex_number (c # cs) of None \<Rightarrow> Bad | Some (l, rest) \<Rightarrow> Got (JNum l, rest))"
  using assms digit_is_no_other [of c]
  by (auto simp: skip_ws_no_ws is_ws_def)

lemma parse_value_string:
  "parse_value (Suc n) (0x22 # cs)
     = (case parse_chars cs of Got (str, rest) \<Rightarrow> Got (JStr str, rest)
        | Bad \<Rightarrow> Bad | NoFuel \<Rightarrow> NoFuel)"
  by (simp add: skip_ws_no_ws is_ws_def)

lemma parse_value_empty_array:
  "parse_value (Suc n) (0x5B # 0x5D # rest) = Got (JArr [], rest)"
  by (simp add: skip_ws_no_ws is_ws_def)

lemma parse_value_empty_object:
  "parse_value (Suc n) (0x7B # 0x7D # rest) = Got (JObj [], rest)"
  by (simp add: skip_ws_no_ws is_ws_def)

lemma parse_value_array:
  assumes "\<not> is_ws c" and "c \<noteq> 0x5D"
  shows "parse_value (Suc n) (0x5B # c # cs)
     = (case parse_elements n (c # cs) of Got (vs, rest) \<Rightarrow> Got (JArr vs, rest)
        | Bad \<Rightarrow> Bad | NoFuel \<Rightarrow> NoFuel)"
  using assms by (simp add: skip_ws_no_ws is_ws_def)

lemma parse_value_object:
  assumes "\<not> is_ws c" and "c \<noteq> 0x7D"
  shows "parse_value (Suc n) (0x7B # c # cs)
     = (case parse_members n (c # cs) of Got (ms, rest) \<Rightarrow> Got (object_of ms, rest)
        | Bad \<Rightarrow> Bad | NoFuel \<Rightarrow> NoFuel)"
  using assms by (simp add: skip_ws_no_ws is_ws_def)

lemma opens_value_chars:
  "opens_value 0x6E" "opens_value 0x74" "opens_value 0x66" "opens_value 0x22"
  "opens_value 0x5B" "opens_value 0x7B" "opens_value 0x2D"
  by (simp_all add: opens_value_def)

lemma opens_value_is_no_other:
  assumes "opens_value c"
  shows "\<not> is_ws c \<and> c \<noteq> 0x5D \<and> c \<noteq> 0x7D \<and> c \<noteq> 0x2C"
proof (cases "is_digit c")
  case True
  then show ?thesis using digit_is_no_other [of c] by simp
next
  case False
  with assms have "c = 0x6E \<or> c = 0x74 \<or> c = 0x66 \<or> c = 0x22 \<or> c = 0x5B
        \<or> c = 0x7B \<or> c = 0x2D"
    by (simp add: opens_value_def)
  then show ?thesis by (elim disjE) (simp_all add: is_ws_def)
qed

lemma stringify_opens:
  assumes "plain_value v"
  shows "\<exists>c cs. JSON_stringify v = c # cs \<and> opens_value c"
proof (cases v)
  case JNull
  then show ?thesis by (simp add: opens_value_chars js_def)
next
  case (JBool b)
  then show ?thesis by (simp add: opens_value_chars js_def)
next
  case (JNum l)
  with assms have "lex_number l = Some (l, [])" by simp
  from number_starts [OF this] JNum show ?thesis
    by (auto simp: opens_value_def)
next
  case (JStr s)
  then show ?thesis by (simp add: quote_def opens_value_chars)
next
  case (JArr vs)
  then show ?thesis by (simp add: opens_value_chars js_def)
next
  case (JObj ms)
  then show ?thesis by (simp add: opens_value_chars js_def)
qed

lemma elements_open:
  "vs \<noteq> [] \<Longrightarrow> plain_elements vs \<Longrightarrow> \<exists>c cs. stringify_elements vs = c # cs \<and> opens_value c"
proof (cases vs)
  case Nil
  assume "vs \<noteq> []"
  with Nil show ?thesis by simp
next
  case (Cons v vs')
  assume "plain_elements vs"
  with Cons stringify_opens [of v] show ?thesis by (cases vs') auto
qed

lemma members_open: "ms \<noteq> [] \<Longrightarrow> \<exists>cs. stringify_members ms = 0x22 # cs"
proof (cases ms)
  case Nil
  assume "ms \<noteq> []"
  with Nil show ?thesis by simp
next
  case (Cons m ms')
  then show ?thesis by (cases m; cases ms') (auto simp: quote_def)
qed

lemma define_member_new:
  "k \<notin> set (map fst ms) \<Longrightarrow> define_member k v ms = ms @ [(k, v)]"
  by (induction ms) auto

lemma fold_define_member:
  "distinct (map fst (acc @ ms)) \<Longrightarrow> fold (\<lambda>(k, v). define_member k v) ms acc = acc @ ms"
proof (induction ms arbitrary: acc)
  case Nil
  then show ?case by simp
next
  case (Cons m ms)
  obtain k v where m: "m = (k, v)" by (cases m)
  with Cons.prems have "k \<notin> set (map fst acc)" by auto
  then have "define_member k v acc = acc @ [(k, v)]" by (rule define_member_new)
  moreover from Cons.prems m have "distinct (map fst ((acc @ [(k, v)]) @ ms))" by simp
  ultimately show ?case using Cons.IH [of "acc @ [(k, v)]"] m by simp
qed

lemma object_of_distinct: "distinct (map fst ms) \<Longrightarrow> object_of ms = JObj ms"
  using fold_define_member [of "[]" ms] by (simp add: object_of_def)

lemma delimited_simps:
  "delimited []" "delimited (0x2C # s)" "delimited (0x5D # s)" "delimited (0x7D # s)"
  by (simp_all add: delimited_def)

lemma parse_after_stringify:
  "plain_value v \<Longrightarrow> length (JSON_stringify v) \<le> n \<Longrightarrow> delimited rest \<Longrightarrow>
     parse_value n (JSON_stringify v @ rest) = Got (v, rest)"
  "vs \<noteq> [] \<Longrightarrow> plain_elements vs \<Longrightarrow> length (stringify_elements vs) < n \<Longrightarrow>
     parse_elements n (stringify_elements vs @ 0x5D # rest) = Got (vs, rest)"
  "ms \<noteq> [] \<Longrightarrow> plain_members ms \<Longrightarrow> length (stringify_members ms) < n \<Longrightarrow>
     parse_members n (stringify_members ms @ 0x7D # rest) = Got (ms, rest)"
proof (induction v and vs and ms arbitrary: n rest and n rest and n rest
    rule: JSON_stringify_stringify_elements_stringify_members.induct)
  case 1
  then obtain m where "n = Suc m" by (cases n) (auto simp: js_def)
  then show ?case by (simp add: js_def skip_ws_def is_ws_def literal_def)
next
  case (2 b)
  then obtain m where "n = Suc m" by (cases n) (auto simp: js_def split: if_splits)
  then show ?case by (cases b) (simp_all add: js_def skip_ws_def is_ws_def literal_def)
next
  case (3 l)
  then obtain m where n: "n = Suc m" by (cases n) (auto simp: lex_number_def lex_minus_def lex_int_def)
  from 3 have l: "lex_number l = Some (l, [])" by simp
  from number_starts [OF l] obtain c cs where c: "l = c # cs" "c = 0x2D \<or> is_digit c"
    by blast
  from lex_number_append [OF l \<open>delimited rest\<close>] have "lex_number (l @ rest) = Some (l, rest)"
    by simp
  with c n parse_value_number [OF c(2), of m "cs @ rest"] show ?case
    by (simp add: js_def del: parse_value.simps)
next
  case (4 s)
  then obtain m where "n = Suc m" by (cases n) (auto simp: quote_def)
  then show ?case
    by (simp add: quote_def parse_value_string parse_chars_quote_units del: parse_value.simps)
next
  case (5 vs)
  then obtain m where n: "n = Suc m" by (cases n) (auto simp: js_def)
  show ?case
  proof (cases "vs = []")
    case True
    with n show ?thesis by (simp add: js_def parse_value_empty_array del: parse_value.simps)
  next
    case False
    from 5 have plain: "plain_elements vs" by simp
    from elements_open [OF False plain] obtain c cs where
      c: "stringify_elements vs = c # cs" "opens_value c" by blast
    from opens_value_is_no_other [OF c(2)] have no: "\<not> is_ws c" "c \<noteq> 0x5D" by (simp_all add: js_def)
    from 5 n have "length (stringify_elements vs) < m" by (simp add: js_def)
    from "5.IH" [OF False plain this, of rest] c(1)
    have "parse_elements m (c # cs @ 0x5D # rest) = Got (vs, rest)" by simp
    with n c(1) parse_value_array [OF no, of m "cs @ 0x5D # rest"] show ?thesis
      by (simp add: js_def del: parse_value.simps)
  qed
next
  case (6 ms)
  then obtain m where n: "n = Suc m" by (cases n) (auto simp: js_def)
  show ?case
  proof (cases "ms = []")
    case True
    with n show ?thesis by (simp add: js_def parse_value_empty_object del: parse_value.simps)
  next
    case False
    from 6 have plain: "plain_members ms" "distinct (map fst ms)" by (simp_all add: js_def)
    from members_open [OF False] obtain cs where c: "stringify_members ms = 0x22 # cs"
      by blast
    have no: "\<not> is_ws 0x22" "(0x22 :: nat) \<noteq> 0x7D" by (simp_all add: is_ws_def)
    from 6 n have "length (stringify_members ms) < m" by (simp add: js_def)
    from "6.IH" [OF False plain(1) this, of rest] c
    have "parse_members m (0x22 # cs @ 0x7D # rest) = Got (ms, rest)" by simp
    with n c parse_value_object [OF no, of m "cs @ 0x7D # rest"] plain(2) show ?thesis
      by (simp add: js_def object_of_distinct del: parse_value.simps)
  qed
next
  case 7
  then show ?case by simp
next
  case (8 v)
  then obtain m where n: "n = Suc m" by (cases n) (auto simp: js_def)
  from 8 n have "plain_value v" "length (JSON_stringify v) \<le> m" by (simp_all add: js_def)
  from "8.IH" [OF this, of "0x5D # rest"]
  have "parse_value m (JSON_stringify v @ 0x5D # rest) = Got (v, 0x5D # rest)"
    by (simp add: delimited_simps js_def)
  with n show ?case by (simp add: js_def skip_ws_def is_ws_def)
next
  case (9 v v' vs)
  then obtain m where n: "n = Suc m" by (cases n) (auto simp: js_def)
  let ?next = "stringify_elements (v' # vs)"
  from stringify_opens [of v] 9 have "JSON_stringify v \<noteq> []" by auto
  with 9 n have len: "length (JSON_stringify v) \<le> m" "length ?next < m" by (simp_all add: js_def)
  from 9 have plain: "plain_value v" "plain_elements (v' # vs)" by (simp_all add: js_def)
  from "9.IH"(1) [OF plain(1) len(1), of "0x2C # ?next @ 0x5D # rest"]
  have "parse_value m (JSON_stringify v @ 0x2C # ?next @ 0x5D # rest)
      = Got (v, 0x2C # ?next @ 0x5D # rest)"
    by (simp add: delimited_simps js_def)
  moreover from "9.IH"(2) [OF _ plain(2) len(2), of rest]
  have "parse_elements m (?next @ 0x5D # rest) = Got (v' # vs, rest)" by simp
  ultimately show ?case using n by (simp add: js_def skip_ws_def is_ws_def)
next
  case 10
  then show ?case by simp
next
  case (11 k v)
  then obtain m where n: "n = Suc m" by (cases n) (auto simp: js_def)
  from 11 n have "plain_value v" "length (JSON_stringify v) \<le> m" by (simp_all add: quote_def js_def)
  from "11.IH" [OF this, of "0x7D # rest"]
  have "parse_value m (JSON_stringify v @ 0x7D # rest) = Got (v, 0x7D # rest)"
    by (simp add: delimited_simps js_def)
  with n show ?case
    by (simp add: js_def quote_def skip_ws_def is_ws_def parse_chars_quote_units)
next
  case (12 k v m' ms)
  then obtain m where n: "n = Suc m" by (cases n) (auto simp: js_def)
  let ?next = "stringify_members (m' # ms)"
  from 12 n have len: "length (JSON_stringify v) \<le> m" "length ?next < m"
    by (simp_all add: quote_def js_def)
  from 12 have plain: "plain_value v" "plain_members (m' # ms)" by (simp_all add: js_def)
  from "12.IH"(1) [OF plain(1) len(1), of "0x2C # ?next @ 0x7D # rest"]
  have "parse_value m (JSON_stringify v @ 0x2C # ?next @ 0x7D # rest)
      = Got (v, 0x2C # ?next @ 0x7D # rest)"
    by (simp add: delimited_simps js_def)
  moreover from "12.IH"(2) [OF _ plain(2) len(2), of rest]
  have "parse_members m (?next @ 0x7D # rest) = Got (m' # ms, rest)" by simp
  ultimately show ?case using n
    by (simp add: js_def quote_def skip_ws_def is_ws_def parse_chars_quote_units)
qed

text \<open>Every plain value comes back from its text.\<close>

lemma plain_value_survives:
  assumes "plain_value v"
  shows "JSON_parse (JSON_stringify v) = Parsed v"
proof -
  let ?text = "JSON_stringify v"
  from parse_after_stringify(1) [OF assms, of "Suc (length ?text + length ?text)" "[]"]
  have "parse_value (Suc (length ?text + length ?text)) ?text = Got (v, [])"
    by (simp add: delimited_simps)
  then show ?thesis by (simp add: JSON_parse_def skip_ws_def del: parse_value.simps)
qed

subsection \<open>The fuel of \<open>JSON.parse\<close>\<close>

lemma skip_ws_Cons: "skip_ws s = c # cs \<Longrightarrow> length cs < length s"
proof -
  assume "skip_ws s = c # cs"
  then have "Suc (length cs) = length (dropWhile is_ws s)" by (simp add: skip_ws_def)
  also have "\<dots> \<le> length s" by (rule length_dropWhile_le)
  finally show ?thesis by simp
qed

lemma prepend_rest: "prepend c p = Got (s, r) \<Longrightarrow> \<exists>s'. p = Got (s', r)"
  by (cases p) (auto simp: prepend_def)

lemma prepend_NoFuel: "prepend c p = NoFuel \<Longrightarrow> p = NoFuel"
  by (cases p) (auto simp: prepend_def)

lemma parse_chars_Got:
  assumes "parse_chars (c # cs) = Got (str, r)"
  shows "r = cs \<or> (\<exists>cs2 s'. length cs2 \<le> length cs \<and> parse_chars cs2 = Got (s', r))"
proof (cases "c = 0x22")
  case True
  with assms show ?thesis by simp
next
  case quote: False
  show ?thesis
  proof (cases "c = 0x5C")
    case False
    with quote assms have "prepend c (parse_chars cs) = Got (str, r)"
      by (simp split: if_splits)
    from prepend_rest [OF this] show ?thesis by auto
  next
    case True
    with quote assms obtain e cs' where cs: "cs = e # cs'"
      by (cases cs) simp_all
    show ?thesis
    proof (cases "e = of_char CHR ''u''")
      case False
      with quote True cs assms obtain ch where "prepend ch (parse_chars cs') = Got (str, r)"
        by (auto split: option.splits)
      from prepend_rest [OF this] obtain s' where "parse_chars cs' = Got (s', r)" ..
      moreover from cs have "length cs' \<le> length cs" by simp
      ultimately show ?thesis by blast
    next
      case u: True
      with quote True cs assms obtain h1 h2 h3 h4 cs'' n where
        h: "cs' = h1 # h2 # h3 # h4 # cs''" "prepend n (parse_chars cs'') = Got (str, r)"
        by (auto split: list.splits option.splits)
      from prepend_rest [OF h(2)] obtain s' where "parse_chars cs'' = Got (s', r)" ..
      moreover from cs h(1) have "length cs'' \<le> length cs" by simp
      ultimately show ?thesis by blast
    qed
  qed
qed

lemma parse_chars_rest: "parse_chars s = Got (str, r) \<Longrightarrow> length r \<le> length s"
proof (induction s arbitrary: str rule: length_induct)
  case (1 s)
  show ?case
  proof (cases s)
    case Nil
    with "1.prems" show ?thesis by simp
  next
    case (Cons c cs)
    with "1.prems" parse_chars_Got [of c cs str r]
    consider "r = cs" | cs2 s' where "length cs2 \<le> length cs" "parse_chars cs2 = Got (s', r)"
      by blast
    then show ?thesis
    proof cases
      case 1
      with Cons show ?thesis by simp
    next
      case 2
      with Cons "1.IH" have "length r \<le> length cs2" by simp
      with 2 Cons show ?thesis by simp
    qed
  qed
qed

lemma parse_chars_NoFuel:
  assumes "parse_chars (c # cs) = NoFuel"
  shows "\<exists>cs2. length cs2 \<le> length cs \<and> parse_chars cs2 = NoFuel"
proof (cases "c = 0x5C")
  case False
  with assms have "prepend c (parse_chars cs) = NoFuel"
    by (simp split: if_splits)
  from prepend_NoFuel [OF this] show ?thesis by auto
next
  case True
  with assms obtain e cs' where cs: "cs = e # cs'"
    by (cases cs) simp_all
  show ?thesis
  proof (cases "e = of_char CHR ''u''")
    case False
    with True cs assms obtain ch where "prepend ch (parse_chars cs') = NoFuel"
      by (auto split: option.splits)
    from prepend_NoFuel [OF this] have "parse_chars cs' = NoFuel" .
    moreover from cs have "length cs' \<le> length cs" by simp
    ultimately show ?thesis by blast
  next
    case u: True
    with True cs assms obtain h1 h2 h3 h4 cs'' n where
      h: "cs' = h1 # h2 # h3 # h4 # cs''" "prepend n (parse_chars cs'') = NoFuel"
      by (auto split: list.splits option.splits)
    from prepend_NoFuel [OF h(2)] have "parse_chars cs'' = NoFuel" .
    moreover from cs h(1) have "length cs'' \<le> length cs" by simp
    ultimately show ?thesis by blast
  qed
qed

lemma parse_chars_fuel: "parse_chars s \<noteq> NoFuel"
proof (induction s rule: length_induct)
  case (1 s)
  show ?case
  proof (cases s)
    case Nil
    then show ?thesis by simp
  next
    case (Cons c cs)
    show ?thesis
    proof
      assume "parse_chars s = NoFuel"
      with Cons parse_chars_NoFuel [of c cs] obtain cs2 where
        "length cs2 \<le> length cs" "parse_chars cs2 = NoFuel" by blast
      with Cons "1.IH" show False by simp
    qed
  qed
qed

lemma digits1_rest: "digits1 s = Some (ds, r) \<Longrightarrow> length r \<le> length s"
  by (auto simp: digits1_def length_dropWhile_le split: if_splits)

lemma lex_number_rest:
  assumes "lex_number s = Some (l, r)"
  shows "length r \<le> length s"
proof -
  from assms obtain i r1 f r2 e where
    parts: "lex_int (snd (lex_minus s)) = Some (i, r1)" "lex_frac r1 = Some (f, r2)"
      "lex_exp r2 = Some (e, r)"
    by (auto simp: lex_number_def split: option.splits)
  have "length (snd (lex_minus s)) \<le> length s"
    by (simp add: lex_minus_def split: list.splits)
  moreover from parts(1) have "length r1 \<le> length (snd (lex_minus s))"
    by (auto simp: lex_int_def split: list.splits if_splits dest: digits1_rest)
  moreover from parts(2) have "length r2 \<le> length r1"
    by (auto simp: lex_frac_def split: list.splits if_splits option.splits dest: digits1_rest)
  moreover have "length r \<le> length r2"
  proof (cases r2)
    case Nil
    with parts(3) show ?thesis by (simp add: lex_exp_def)
  next
    case (Cons c cs)
    show ?thesis
    proof (cases "c = of_char CHR ''e'' \<or> c = of_char CHR ''E''")
      case False
      with Cons parts(3) show ?thesis by (auto simp: lex_exp_def)
    next
      case True
      with Cons parts(3) obtain ds where "digits1 (snd (lex_sign cs)) = Some (ds, r)"
        by (auto simp: lex_exp_def split: option.splits)
      then have "length r \<le> length (snd (lex_sign cs))" by (rule digits1_rest)
      also have "\<dots> \<le> length cs" by (simp add: lex_sign_def split: list.splits)
      finally show ?thesis using Cons by simp
    qed
  qed
  ultimately show ?thesis by simp
qed

lemma literal_rest: "literal l v s = Got (x, r) \<Longrightarrow> length r \<le> length s"
  by (auto simp: literal_def split: if_splits)

lemma literal_fuel: "literal l v s \<noteq> NoFuel"
  by (simp add: literal_def)

lemma descent_rest:
  "(parse_value n s = Got (v, r) \<longrightarrow> length r \<le> length s)
   \<and> (parse_elements n s = Got (vs, r) \<longrightarrow> length r \<le> length s)
   \<and> (parse_members n s = Got (ms, r) \<longrightarrow> length r \<le> length s)"
proof (induction n arbitrary: s v vs ms r)
  case 0
  show ?case by simp
next
  case (Suc n)
  have val: "\<And>s v r. parse_value n s = Got (v, r) \<Longrightarrow> length r \<le> length s"
    and els: "\<And>s vs r. parse_elements n s = Got (vs, r) \<Longrightarrow> length r \<le> length s"
    and mems: "\<And>s ms r. parse_members n s = Got (ms, r) \<Longrightarrow> length r \<le> length s"
    using Suc.IH by blast+
  have "length r \<le> length s" if pv: "parse_value (Suc n) s = Got (v, r)"
  proof -
    from pv obtain c cs where sk: "skip_ws s = c # cs"
      by (cases "skip_ws s") simp_all
    from skip_ws_Cons [OF sk] have len: "length cs < length s" .
    consider (lit) x l where "literal l x (c # cs) = Got (v, r)"
      | (str) str where "parse_chars cs = Got (str, r)"
      | (empty) c' where "skip_ws cs = c' # r"
      | (arr) vs' where "parse_elements n cs = Got (vs', r)"
      | (obj) ms' where "parse_members n cs = Got (ms', r)"
      | (num) l where "lex_number (c # cs) = Some (l, r)"
      using pv sk
      by (auto split: if_splits descent.splits list.splits option.splits prod.splits)
    then show ?thesis
    proof cases
      case lit
      from literal_rest [OF this] len show ?thesis by simp
    next
      case str
      from parse_chars_rest [OF this] len show ?thesis by simp
    next
      case empty
      from skip_ws_Cons [OF this] len show ?thesis by simp
    next
      case arr
      from els [OF this] len show ?thesis by simp
    next
      case obj
      from mems [OF this] len show ?thesis by simp
    next
      case num
      from lex_number_rest [OF this] len show ?thesis by simp
    qed
  qed
  moreover have "length r \<le> length s" if pe: "parse_elements (Suc n) s = Got (vs, r)"
  proof -
    from pe obtain v' r1 where v': "parse_value n s = Got (v', r1)"
      by (auto split: descent.splits)
    from val [OF this] have r1: "length r1 \<le> length s" .
    from pe v' obtain c cs where sk: "skip_ws r1 = c # cs"
      by (cases "skip_ws r1") simp_all
    from skip_ws_Cons [OF sk] have len: "length cs < length r1" .
    consider (more) vs' where "parse_elements n cs = Got (vs', r)" | (last) "r = cs"
      using pe v' sk by (auto split: if_splits descent.splits)
    then show ?thesis
    proof cases
      case more
      from els [OF this] len r1 show ?thesis by simp
    next
      case last
      with len r1 show ?thesis by simp
    qed
  qed
  moreover have "length r \<le> length s" if pm: "parse_members (Suc n) s = Got (ms, r)"
  proof -
    from pm obtain q s1 where sk1: "skip_ws s = q # s1"
      by (cases "skip_ws s") simp_all
    from pm sk1 obtain k s2 where k: "parse_chars s1 = Got (k, s2)"
      by (auto split: if_splits descent.splits)
    from pm sk1 k obtain colon s3 where sk2: "skip_ws s2 = colon # s3"
      by (cases "skip_ws s2") (auto split: if_splits)
    from pm sk1 k sk2 obtain v' s4 where v': "parse_value n s3 = Got (v', s4)"
      by (auto split: if_splits descent.splits)
    from pm sk1 k sk2 v' obtain c s5 where sk3: "skip_ws s4 = c # s5"
      by (cases "skip_ws s4") (auto split: if_splits)
    from skip_ws_Cons [OF sk1] parse_chars_rest [OF k] skip_ws_Cons [OF sk2] val [OF v']
      skip_ws_Cons [OF sk3]
    have len: "length s5 < length s" by simp
    consider (more) ms' where "parse_members n s5 = Got (ms', r)" | (last) "r = s5"
      using pm sk1 k sk2 v' sk3 by (auto split: if_splits descent.splits)
    then show ?thesis
    proof cases
      case more
      from mems [OF this] len show ?thesis by simp
    next
      case last
      with len show ?thesis by simp
    qed
  qed
  ultimately show ?case by blast
qed

lemma parse_value_rest: "parse_value n s = Got (v, r) \<Longrightarrow> length r \<le> length s"
  using descent_rest [of n s v r] by simp

text \<open>With two units of fuel for each code unit, and one more, the descent answers.\<close>

lemma descent_fuel:
  "(2 * length s < n \<longrightarrow> parse_value n s \<noteq> NoFuel)
   \<and> (2 * length s + 1 < n \<longrightarrow> parse_elements n s \<noteq> NoFuel)
   \<and> (2 * length s + 1 < n \<longrightarrow> parse_members n s \<noteq> NoFuel)"
proof (induction n arbitrary: s)
  case 0
  show ?case by simp
next
  case (Suc n)
  have val: "\<And>s. 2 * length s < n \<Longrightarrow> parse_value n s \<noteq> NoFuel"
    and els: "\<And>s. 2 * length s + 1 < n \<Longrightarrow> parse_elements n s \<noteq> NoFuel"
    and mems: "\<And>s. 2 * length s + 1 < n \<Longrightarrow> parse_members n s \<noteq> NoFuel"
    using Suc.IH by blast+
  have "parse_value (Suc n) s \<noteq> NoFuel" if fuel: "2 * length s < Suc n"
  proof
    assume pv: "parse_value (Suc n) s = NoFuel"
    then obtain c cs where sk: "skip_ws s = c # cs"
      by (cases "skip_ws s") simp_all
    from skip_ws_Cons [OF sk] fuel have len: "2 * length cs + 1 < n" by simp
    from pv sk have "parse_elements n cs = NoFuel \<or> parse_members n cs = NoFuel"
      using parse_chars_fuel [of cs] literal_fuel
      by (auto split: if_splits descent.splits list.splits option.splits prod.splits)
    with els [OF len] mems [OF len] show False by blast
  qed
  moreover have "parse_elements (Suc n) s \<noteq> NoFuel" if fuel: "2 * length s + 1 < Suc n"
  proof
    assume pe: "parse_elements (Suc n) s = NoFuel"
    from fuel have "2 * length s < n" by simp
    from val [OF this] pe obtain v r1 where v: "parse_value n s = Got (v, r1)"
      by (cases "parse_value n s") auto
    from parse_value_rest [OF v] have r1: "length r1 \<le> length s" .
    from pe v obtain c cs where sk: "skip_ws r1 = c # cs"
      by (cases "skip_ws r1") simp_all
    from skip_ws_Cons [OF sk] r1 fuel have len: "2 * length cs + 1 < n" by simp
    from pe v sk have "parse_elements n cs = NoFuel"
      by (auto split: if_splits descent.splits)
    with els [OF len] show False by blast
  qed
  moreover have "parse_members (Suc n) s \<noteq> NoFuel" if fuel: "2 * length s + 1 < Suc n"
  proof
    assume pm: "parse_members (Suc n) s = NoFuel"
    then obtain q s1 where sk1: "skip_ws s = q # s1"
      by (cases "skip_ws s") simp_all
    from pm sk1 parse_chars_fuel [of s1] obtain k s2 where k: "parse_chars s1 = Got (k, s2)"
      by (cases "parse_chars s1") (auto split: if_splits)
    from pm sk1 k obtain colon s3 where sk2: "skip_ws s2 = colon # s3"
      by (cases "skip_ws s2") (auto split: if_splits)
    from skip_ws_Cons [OF sk1] parse_chars_rest [OF k] skip_ws_Cons [OF sk2] fuel
    have len3: "2 * length s3 < n" by simp
    from pm sk1 k sk2 val [OF len3] obtain v s4 where v: "parse_value n s3 = Got (v, s4)"
      by (cases "parse_value n s3") (auto split: if_splits)
    from pm sk1 k sk2 v obtain c s5 where sk3: "skip_ws s4 = c # s5"
      by (cases "skip_ws s4") (auto split: if_splits)
    from skip_ws_Cons [OF sk1] parse_chars_rest [OF k] skip_ws_Cons [OF sk2]
      parse_value_rest [OF v] skip_ws_Cons [OF sk3] fuel
    have len5: "2 * length s5 + 1 < n" by simp
    from pm sk1 k sk2 v sk3 have "parse_members n s5 = NoFuel"
      by (auto split: if_splits descent.splits)
    with mems [OF len5] show False by blast
  qed
  ultimately show ?case by blast
qed

text \<open>\<open>JSON.parse\<close> never runs out of fuel.\<close>

lemma JSON_parse_has_fuel: "parse_value (Suc (length text + length text)) text \<noteq> NoFuel"
  using descent_fuel [of "text" "Suc (length text + length text)"] by simp

text \<open>
  Texts that are cut off inside nested arrays are rejected, and an escape gives the code
  unit it names.
\<close>

lemma JSON_parse_unclosed:
  "JSON_parse (js ''[[['') = SyntaxError" "JSON_parse (js ''[[[1'') = SyntaxError"
  "JSON_parse (js ''[[[[[[[['') = SyntaxError"
  by (simp_all add: JSON_parse_def js_def skip_ws_def is_ws_def lex_number_def lex_minus_def
      lex_int_def lex_frac_def lex_exp_def digits1_def is_digit_def)

lemma JSON_parse_escape:
  "JSON_parse ([0x22, 0x5C] @ js ''u2013'' @ [0x22]) = Parsed (JStr [0x2013])"
  "JSON_parse ([0x22, 0x5C] @ js ''u2013'') = SyntaxError"
  by (simp_all add: JSON_parse_def js_def skip_ws_def is_ws_def hex4_def hex_value_def
      prepend_def)

subsection \<open>C1: \<open>addExam\<close>, then \<open>getExamById\<close>\<close>

text \<open>
  Whatever the stored text is, \<open>getExamById\<close> resolves when its query does: what
  \<open>JSON.parse\<close> throws is caught.
\<close>

lemma getExamById_resolves:
  assumes "query (select_exam_by_id i) w = (Inr rows, w1)"
  shows "\<exists>x w'. getExamById i w = (Inr x, w')"
proof (cases rows)
  case Nil
  with assms show ?thesis by (simp add: getExamById_def)
next
  case (Cons r others)
  with assms show ?thesis
    by (cases "JSON_parse (ToString (o_exam_data r))") (simp_all add: getExamById_def)
qed

text \<open>
  C1. A payload survives serialization when \<open>JSON.parse\<close> reads it back from the
  text that \<open>JSON.stringify\<close> writes; every plain value does
  (\<open>plain_value_survives\<close>). The plugin rejecting no call, and the tables being there:
  \<^item> for an exam of a patient of the database, with an exam type and a payload that
    survives serialization, \<open>addExam\<close> resolves, and \<open>getExamById\<close> with the
    \<open>lastInsertId\<close> of its result resolves with an exam that has that id, the patient,
    the type, and the payload;
  \<^item> when the \<open>exam_data\<close> of the row with the id is a text that \<open>JSON.parse\<close> rejects,
    \<open>getExamById\<close> resolves with the exam, its \<open>exam_data\<close> being the empty object.
\<close>

theorem addExam_then_getExamById:
  assumes "calm w" and "exams_t (disk w) = Some es"
  shows "(patients_t (disk w) = Some ps \<and> ex_patient_id exam = Some pid
            \<and> (\<exists>p \<in> set ps. p_id p = pid) \<and> ex_exam_type exam = Some ty
            \<and> JSON_parse (JSON_stringify (ex_exam_data exam)) = Parsed (ex_exam_data exam) \<longrightarrow>
          (\<exists>r w1 x w2. addExam exam w = (Inr r, w1)
             \<and> getExamById (lastInsertId r) w1 = (Inr (Some x), w2)
             \<and> o_exam_data x = ex_exam_data exam
             \<and> o_id x = lastInsertId r \<and> o_patient_id x = pid \<and> o_exam_type x = ty))
       \<and> (filter (\<lambda>e. e_id e = i) es = e # others \<and> e_exam_data e = Some text
            \<and> JSON_parse text = SyntaxError \<longrightarrow>
          (\<exists>x w'. getExamById i w = (Inr (Some x), w') \<and> o_exam_data x = JObj []
             \<and> o_id x = e_id e \<and> o_patient_id x = e_patient_id e
             \<and> o_exam_type x = e_exam_type e))"
proof (intro conjI impI)
  assume a: "patients_t (disk w) = Some ps \<and> ex_patient_id exam = Some pid
            \<and> (\<exists>p \<in> set ps. p_id p = pid) \<and> ex_exam_type exam = Some ty
            \<and> JSON_parse (JSON_stringify (ex_exam_data exam)) = Parsed (ex_exam_data exam)"
  let ?text = "JSON_stringify (ex_exam_data exam)"
  let ?i = "next_rowid (exams_seq (disk w)) (map e_id es)"
  let ?row = "\<lparr>e_id = ?i, e_patient_id = pid, e_exam_type = ty, e_exam_data = Some ?text,
      e_created_at = clock w, e_updated_at = clock w\<rparr>"
  let ?d = "(disk w)\<lparr>exams_t := Some (es @ [?row]), exams_seq := ?i, last_insert_rowid := ?i\<rparr>"
  let ?r = "\<lparr>rowsAffected = 1, lastInsertId = ?i\<rparr>"
  from a assms(2)
  have "engine_execute (InsertExam (ex_patient_id exam) (ex_exam_type exam) (Some ?text))
          (clock w) (disk w) = Inr (?r, ?d)"
    by (auto simp: done_with_def Let_def)
  from execute_calm [OF assms(1) this] obtain w1 where
    w1: "addExam exam w = (Inr ?r, w1)" "disk w1 = ?d" "calm w1"
    by (auto simp: addExam_def)
  have "\<forall>x \<in> set es. e_id x \<noteq> ?i"
    using next_rowid_is_new [of _ "map e_id es" "exams_seq (disk w)"] by fastforce
  then have "filter (\<lambda>e. e_id e = ?i) (es @ [?row]) = [?row]"
    by (simp add: filter_no_match)
  with w1(2) have "select_exam_by_id ?i (disk w1) = Inr [row_object ?row]"
    by (simp add: select_exam_by_id_def)
  with query_calm [OF w1(3), of "select_exam_by_id ?i"] obtain w2 where
    "query (select_exam_by_id ?i) w1 = (Inr [row_object ?row], w2)" by auto
  with a have "getExamById ?i w1
      = (Inr (Some ((row_object ?row)\<lparr>o_exam_data := ex_exam_data exam\<rparr>)), w2)"
    by (simp add: getExamById_def row_object_def column_text_def)
  with w1(1)
  show "\<exists>r w1 x w2. addExam exam w = (Inr r, w1)
             \<and> getExamById (lastInsertId r) w1 = (Inr (Some x), w2)
             \<and> o_exam_data x = ex_exam_data exam
             \<and> o_id x = lastInsertId r \<and> o_patient_id x = pid \<and> o_exam_type x = ty"
    by (simp add: row_object_def)
next
  assume b: "filter (\<lambda>e. e_id e = i) es = e # others \<and> e_exam_data e = Some text
            \<and> JSON_parse text = SyntaxError"
  with assms(2) have "select_exam_by_id i (disk w) = Inr (row_object e # map row_object others)"
    by (simp add: select_exam_by_id_def)
  with query_calm [OF assms(1), of "select_exam_by_id i"] obtain w1 where
    "query (select_exam_by_id i) w = (Inr (row_object e # map row_object others), w1)" by auto
  with b have "getExamById i w = (Inr (Some ((row_object e)\<lparr>o_exam_data := JObj []\<rparr>)),
      print (Failure ''Falha ao parsear exam_data:'' JSONSyntaxError) w1)"
    by (simp add: getExamById_def row_object_def column_text_def)
  then show "\<exists>x w'. getExamById i w = (Inr (Some x), w') \<and> o_exam_data x = JObj []
             \<and> o_id x = e_id e \<and> o_patient_id x = e_patient_id e
             \<and> o_exam_type x = e_exam_type e"
    by (simp add: row_object_def)
qed

lemma notes_clear_survives:
  "JSON_parse (JSON_stringify (JObj [(js ''notes'', JStr (js ''clear''))]))
     = Parsed (JObj [(js ''notes'', JStr (js ''clear''))])"
  by (rule plain_value_survives) (simp add: js_def)

lemma unclosed_is_malformed: "JSON_parse (js ''[[1'') = SyntaxError"
  by (simp add: JSON_parse_def js_def skip_ws_def is_ws_def lex_number_def lex_minus_def
      lex_int_def lex_frac_def lex_exp_def digits1_def is_digit_def)

theorem addExam_then_getExamById_witness:
  "calm at_clinic \<and> exams_t (disk at_clinic) = Some [xray]
   \<and> patients_t (disk at_clinic) = Some [rex] \<and> (\<exists>p \<in> set [rex]. p_id p = 1)
   \<and> JSON_parse (JSON_stringify (JObj [(js ''notes'', JStr (js ''clear''))]))
       = Parsed (JObj [(js ''notes'', JStr (js ''clear''))])
   \<and> (\<exists>r w1 x w2.
        addExam \<lparr>ex_id = 0, ex_patient_id = Some 1, ex_exam_type = Some ''echo'',
                 ex_exam_data = JObj [(js ''notes'', JStr (js ''clear''))]\<rparr> at_clinic = (Inr r, w1)
      \<and> getExamById (lastInsertId r) w1 = (Inr (Some x), w2)
      \<and> o_exam_data x = JObj [(js ''notes'', JStr (js ''clear''))]
      \<and> o_id x = lastInsertId r \<and> o_patient_id x = 1 \<and> o_exam_type x = ''echo'')
   \<and> calm at_clinic_garbled \<and> exams_t (disk at_clinic_garbled) = Some [xray, garbled]
   \<and> filter (\<lambda>e. e_id e = 2) [xray, garbled] = [garbled]
   \<and> e_exam_data garbled = Some (js ''[[1'') \<and> JSON_parse (js ''[[1'') = SyntaxError
   \<and> (\<exists>x w'. getExamById 2 at_clinic_garbled = (Inr (Some x), w') \<and> o_exam_data x = JObj []
        \<and> o_id x = 2 \<and> o_patient_id x = 1 \<and> o_exam_type x = ''echo'')"
proof -
  have g: "calm at_clinic_garbled" "exams_t (disk at_clinic_garbled) = Some [xray, garbled]"
    "filter (\<lambda>e. e_id e = 2) [xray, garbled] = [garbled]" "e_exam_data garbled = Some (js ''[[1'')"
    by (simp_all add: at_clinic_garbled_def at_clinic_def calm_def xray_def garbled_def)
  have c: "exams_t (disk at_clinic) = Some [xray]" "patients_t (disk at_clinic) = Some [rex]"
    "\<exists>p \<in> set [rex]. p_id p = 1"
    by (simp_all add: at_clinic_def clinic_def rex_def)
  from addExam_then_getExamById [OF calm_at_clinic c(1), of "[rex]"
      "\<lparr>ex_id = 0, ex_patient_id = Some 1, ex_exam_type = Some ''echo'',
        ex_exam_data = JObj [(js ''notes'', JStr (js ''clear''))]\<rparr>" 1 "''echo''"]
    c notes_clear_survives
  have first: "\<exists>r w1 x w2.
        addExam \<lparr>ex_id = 0, ex_patient_id = Some 1, ex_exam_type = Some ''echo'',
                 ex_exam_data = JObj [(js ''notes'', JStr (js ''clear''))]\<rparr> at_clinic = (Inr r, w1)
      \<and> getExamById (lastInsertId r) w1 = (Inr (Some x), w2)
      \<and> o_exam_data x = JObj [(js ''notes'', JStr (js ''clear''))]
      \<and> o_id x = lastInsertId r \<and> o_patient_id x = 1 \<and> o_exam_type x = ''echo''"
    by simp
  from addExam_then_getExamById [OF g(1,2), of _ _ _ _ 2 garbled "[]" "js ''[[1''"]
    g unclosed_is_malformed
  have second: "\<exists>x w'. getExamById 2 at_clinic_garbled = (Inr (Some x), w')
        \<and> o_exam_data x = JObj [] \<and> o_id x = 2 \<and> o_patient_id x = 1 \<and> o_exam_type x = ''echo''"
    by (simp add: garbled_def)
  from first second g c notes_clear_survives unclosed_is_malformed calm_at_clinic
  show ?thesis by simp
qed

subsection \<open>C2: a \<open>CREATE TABLE\<close> that fails\<close>

lemma run_statements_failure:
  "run_statements sqls w = (Some e, w') \<Longrightarrow>
     \<exists>before sql after w1. sqls = before @ sql # after
       \<and> run_statements before w = (None, w1) \<and> db_execute sql w1 = (Inl e, w')"
proof (induction sqls arbitrary: w)
  case Nil
  then show ?case by simp
next
  case (Cons sql rest)
  show ?case
  proof (cases "db_execute sql w")
    case (Pair res w1)
    show ?thesis
    proof (cases res)
      case (Inl e')
      with Pair Cons.prems have "e' = e" "w1 = w'" by simp_all
      with Pair Inl have "sql # rest = [] @ sql # rest \<and> run_statements [] w = (None, w)
          \<and> db_execute sql w = (Inl e, w')" by simp
      then show ?thesis by blast
    next
      case (Inr r)
      with Pair Cons.prems have "run_statements rest w1 = (Some e, w')" by simp
      from Cons.IH [OF this] obtain before sql' after w2 where
        *: "rest = before @ sql' # after" "run_statements before w1 = (None, w2)"
           "db_execute sql' w2 = (Inl e, w')" by blast
      from * Pair Inr have "sql # rest = (sql # before) @ sql' # after
          \<and> run_statements (sql # before) w = (None, w2) \<and> db_execute sql' w2 = (Inl e, w')"
        by simp
      then show ?thesis by blast
    qed
  qed
qed

text \<open>
  C2, as the spec has it, fails: after the second statement is rejected,
  \<open>createTables\<close> resolves, with the failure on the console, but the tables of the
  third, fourth and fifth statement are not there, although the plugin had no rejection
  left for them.
\<close>

theorem createTables_continues_counterexample:
  "fst (createTables second_rejected) = Inr ()
   \<and> console (snd (createTables second_rejected)) = [Failure ''Erro ao criar tabelas:'' EngineFault]
   \<and> faults (snd (createTables second_rejected)) = []
   \<and> patients_t (disk (snd (createTables second_rejected))) = Some []
   \<and> settings_t (disk (snd (createTables second_rejected))) = None
   \<and> templates_t (disk (snd (createTables second_rejected))) = None
   \<and> reference_values_t (disk (snd (createTables second_rejected))) = None"
  by (simp add: createTables_def second_rejected_def ensure_open_def tablesSql_def
      db_execute_def draw_def done_with_def blank_def print_def)

text \<open>
  C2, amended. Once the connection is there, \<open>createTables\<close> resolves whatever the
  statements do. When a statement is rejected, the loop ends there: the statements
  before it have been executed, the world is the one that the rejected statement left,
  with the failure added to the console, and no later statement is executed.
\<close>

theorem createTables_stops_at_first_failure:
  assumes "ensure_open w = (Inr (), w1)"
  shows "fst (createTables w) = Inr ()
     \<and> (\<forall>e w2. run_statements tablesSql w1 = (Some e, w2) \<longrightarrow>
          snd (createTables w) = print (Failure ''Erro ao criar tabelas:'' e) w2
          \<and> (\<exists>before sql after wb. tablesSql = before @ sql # after
               \<and> run_statements before w1 = (None, wb) \<and> db_execute sql wb = (Inl e, w2)))"
proof (intro conjI allI impI)
  show "fst (createTables w) = Inr ()"
    using assms by (simp add: createTables_def split: prod.splits option.splits)
next
  fix e w2
  assume run: "run_statements tablesSql w1 = (Some e, w2)"
  with assms show "snd (createTables w) = print (Failure ''Erro ao criar tabelas:'' e) w2"
    by (simp add: createTables_def)
  from run_statements_failure [OF run]
  show "\<exists>before sql after wb. tablesSql = before @ sql # after
          \<and> run_statements before w1 = (None, wb) \<and> db_execute sql wb = (Inl e, w2)" .
qed

theorem createTables_stops_at_first_failure_witness:
  "ensure_open second_rejected = (Inr (), second_rejected)
   \<and> fst (createTables second_rejected) = Inr ()
   \<and> run_statements tablesSql second_rejected = (Some EngineFault, second_rejected\<lparr>disk := blank\<lparr>patients_t := Some []\<rparr>, faults := []\<rparr>)
   \<and> snd (createTables second_rejected)
       = print (Failure ''Erro ao criar tabelas:'' EngineFault)
           (second_rejected\<lparr>disk := blank\<lparr>patients_t := Some []\<rparr>, faults := []\<rparr>)
   \<and> (\<exists>before sql after wb. tablesSql = before @ sql # after
         \<and> run_statements before second_rejected = (None, wb)
         \<and> db_execute sql wb
             = (Inl EngineFault, second_rejected\<lparr>disk := blank\<lparr>patients_t := Some []\<rparr>, faults := []\<rparr>))"
proof -
  have open_: "ensure_open second_rejected = (Inr (), second_rejected)"
    by (simp add: ensure_open_def second_rejected_def)
  have run: "run_statements tablesSql second_rejected
      = (Some EngineFault, second_rejected\<lparr>disk := blank\<lparr>patients_t := Some []\<rparr>, faults := []\<rparr>)"
    by (simp add: second_rejected_def tablesSql_def db_execute_def draw_def done_with_def blank_def)
  from createTables_stops_at_first_failure [OF open_] run open_ show ?thesis by blast
qed

subsection \<open>C3: \<open>getExamById\<close> on an id that matches no row\<close>

text \<open>
  C3. When no row of \<open>exams\<close> has the id, \<open>getExamById\<close> resolves with \<open>null\<close>
  (the plugin rejecting no call, and the table being there); the database is as it was.
\<close>

theorem getExamById_missing_is_null:
  assumes "calm w" and "exams_t (disk w) = Some es" and "\<forall>e \<in> set es. e_id e \<noteq> i"
  shows "\<exists>w'. getExamById i w = (Inr None, w') \<and> disk w' = disk w"
proof -
  from assms(2,3) have "select_exam_by_id i (disk w) = Inr []"
    by (simp add: select_exam_by_id_def filter_no_match)
  with query_calm [OF assms(1), of "select_exam_by_id i"]
  show ?thesis by (auto simp: getExamById_def)
qed

theorem getExamById_missing_is_null_witness:
  "calm at_clinic \<and> exams_t (disk at_clinic) = Some [xray] \<and> e_id xray \<noteq> 2
   \<and> (\<exists>w'. getExamById 2 at_clinic = (Inr None, w') \<and> disk w' = clinic)"
  using getExamById_missing_is_null [OF calm_at_clinic, of "[xray]" 2]
  by (simp add: at_clinic_def clinic_def xray_def calm_def)

subsection \<open>C4: saving a setting twice\<close>

lemma one_row_for_key:
  "length (filter (\<lambda>(rowid, s). s_key s = k)
     (filter (\<lambda>(rowid, s). s_key s \<noteq> k) ss @ [(i, \<lparr>s_key = k, s_value = v\<rparr>)])) = 1"
  by (induction ss) auto

text \<open>
  For a key other than \<open>__proto__\<close> the second write replaces the first: the table
  has one row for the key, and the object of \<open>getSettings\<close> has the second value
  under it.
\<close>

lemma saveSettings_twice_then_getSettings:
  assumes "calm w" and "settings_t (disk w) = Some ss" and "k \<noteq> ''__proto__''"
  shows "\<exists>r1 w1 r2 w2 settings w3 rows.
       saveSettings k v1 w = (Inr r1, w1) \<and> saveSettings k v2 w1 = (Inr r2, w2)
     \<and> getSettings w2 = (Inr settings, w3) \<and> own settings k = Some v2
     \<and> settings_t (disk w2) = Some rows
     \<and> length (filter (\<lambda>(rowid, s). s_key s = k) rows) = 1"
proof -
  let ?others = "filter (\<lambda>(rowid, s). s_key s \<noteq> k) ss"
  let ?i1 = "next_rowid 0 (map fst ss)"
  let ?rows1 = "?others @ [(?i1, \<lparr>s_key = k, s_value = v1\<rparr>)]"
  let ?d1 = "(disk w)\<lparr>settings_t := Some ?rows1, last_insert_rowid := ?i1\<rparr>"
  let ?i2 = "next_rowid 0 (map fst ?rows1)"
  let ?rows = "?others @ [(?i2, \<lparr>s_key = k, s_value = v2\<rparr>)]"
  let ?d2 = "?d1\<lparr>settings_t := Some ?rows, last_insert_rowid := ?i2\<rparr>"
  from assms(2) have "\<exists>r. engine_execute (ReplaceSetting k v1) (clock w) (disk w) = Inr (r, ?d1)"
    by (simp add: done_with_def Let_def)
  then obtain r1 where "engine_execute (ReplaceSetting k v1) (clock w) (disk w) = Inr (r1, ?d1)" ..
  from execute_calm [OF assms(1) this] obtain w1 where
    w1: "saveSettings k v1 w = (Inr r1, w1)" "disk w1 = ?d1" "calm w1"
    by (auto simp: saveSettings_def)
  have "filter (\<lambda>(rowid, s). s_key s \<noteq> k) ?rows1 = ?others" by simp
  with w1(2)
  have "\<exists>r. engine_execute (ReplaceSetting k v2) (clock w1) (disk w1) = Inr (r, ?d2)"
    by (simp add: done_with_def Let_def)
  then obtain r2 where
    "engine_execute (ReplaceSetting k v2) (clock w1) (disk w1) = Inr (r2, ?d2)" ..
  from execute_calm [OF w1(3) this] obtain w2 where
    w2: "saveSettings k v2 w1 = (Inr r2, w2)" "disk w2 = ?d2" "calm w2"
    by (auto simp: saveSettings_def)
  let ?settings = "fold (\<lambda>row settings. assign settings (s_key row) (s_value row))
      (map snd ?rows) empty_object"
  from w2(2) have "select_settings (disk w2) = Inr (map snd ?rows)"
    by (simp add: select_settings_def)
  with query_calm [OF w2(3), of select_settings] obtain w3 where
    w3: "getSettings w2 = (Inr ?settings, w3)"
    by (auto simp: getSettings_def)
  from assms(3) have "own ?settings k = Some v2"
    by (simp add: assign_def)
  moreover have "length (filter (\<lambda>(rowid, s). s_key s = k) ?rows) = 1"
    by (rule one_row_for_key)
  moreover from w2(2) have "settings_t (disk w2) = Some ?rows" by simp
  ultimately show ?thesis using w1(1) w2(1) w3 by blast
qed

text \<open>
  C4 fails on the code at the key \<open>__proto__\<close>. After the two writes the table has
  the one row with the second value, but \<open>getSettings\<close> returns an object without
  any property: the assignment \<open>settings[row.key] = row.value\<close> went to the setter
  that the object literal inherits. With the key \<open>theme\<close> the same calls give the
  second value.
\<close>

theorem setting___proto___is_lost:
  "settings_t (disk (snd (saveSettings ''__proto__'' (Some ''b'')
       (snd (saveSettings ''__proto__'' (Some ''a'') at_clinic)))))
     = Some [(2, \<lparr>s_key = ''__proto__'', s_value = Some ''b''\<rparr>)]
   \<and> fst (getSettings (snd (saveSettings ''__proto__'' (Some ''b'')
       (snd (saveSettings ''__proto__'' (Some ''a'') at_clinic)))))
     = Inr empty_object
   \<and> own empty_object ''__proto__'' = None
   \<and> fst (getSettings (snd (saveSettings ''theme'' (Some ''b'')
       (snd (saveSettings ''theme'' (Some ''a'') at_clinic)))))
     = Inr (empty_object\<lparr>own := [''theme'' \<mapsto> Some ''b'']\<rparr>)"
  by (simp add: saveSettings_def getSettings_def execute_def query_def ensure_open_def
      open_db_def Database_load_def draw_def print_def db_execute_def db_select_def
      select_settings_def done_with_def at_clinic_def clinic_def assign_def empty_object_def
      next_rowid_def)

subsection \<open>C5: \<open>addPatient\<close>, then \<open>getPatients\<close>\<close>

text \<open>
  C5. For a patient with a name, \<open>addPatient\<close> and then \<open>getPatients\<close> resolve (the
  plugin rejecting no call, and the table being there); the rows come sorted by name,
  and contain a row with the new id and the name, species, breed and owner name of the
  patient, next to every row that was there before (none of which has the new id).
\<close>

theorem addPatient_then_getPatients:
  assumes "calm w" and "patients_t (disk w) = Some ps" and "pt_name patient = Some n"
  shows "\<exists>r w1 rows w2. addPatient patient w = (Inr r, w1) \<and> getPatients w1 = (Inr rows, w2)
     \<and> sorted (map p_name rows)
     \<and> (\<exists>row \<in> set rows. p_id row = lastInsertId r \<and> p_name row = n
          \<and> p_species row = pt_species patient \<and> p_breed row = pt_breed patient
          \<and> p_owner_name row = pt_owner_name patient)
     \<and> (\<forall>p \<in> set ps. p \<in> set rows \<and> p_id p \<noteq> lastInsertId r)"
proof -
  let ?i = "next_rowid (patients_seq (disk w)) (map p_id ps)"
  let ?row = "\<lparr>p_id = ?i, p_name = n, p_species = pt_species patient,
      p_breed = pt_breed patient, p_owner_name = pt_owner_name patient,
      p_created_at = clock w\<rparr>"
  let ?d = "(disk w)\<lparr>patients_t := Some (ps @ [?row]), patients_seq := ?i,
      last_insert_rowid := ?i\<rparr>"
  let ?r = "\<lparr>rowsAffected = 1, lastInsertId = ?i\<rparr>"
  from assms(2,3)
  have "engine_execute (InsertPatient (pt_name patient) (pt_species patient) (pt_breed patient)
          (pt_owner_name patient)) (clock w) (disk w) = Inr (?r, ?d)"
    by (simp add: done_with_def Let_def)
  from execute_calm [OF assms(1) this] obtain w1 where
    w1: "addPatient patient w = (Inr ?r, w1)" "disk w1 = ?d" "calm w1"
    by (auto simp: addPatient_def)
  from query_calm [OF w1(3), of select_patients] w1(2) obtain w2 where
    w2: "getPatients w1 = (Inr (sort_key p_name (ps @ [?row])), w2)"
    by (auto simp: getPatients_def select_patients_def)
  have new: "\<forall>p \<in> set ps. p_id p \<noteq> ?i"
    using next_rowid_is_new [of _ "map p_id ps" "patients_seq (disk w)"] by fastforce
  have "sorted (map p_name (sort_key p_name (ps @ [?row])))"
    by (rule sorted_sort_key)
  moreover have "?row \<in> set (sort_key p_name (ps @ [?row]))" by simp
  moreover have "\<forall>p \<in> set ps. p \<in> set (sort_key p_name (ps @ [?row]))" by simp
  ultimately show ?thesis using w1(1) w2 new
    by (intro exI [of _ ?r] exI [of _ w1] exI [of _ "sort_key p_name (ps @ [?row])"]
        exI [of _ w2] conjI bexI [of _ ?row]) simp_all
qed

theorem addPatient_then_getPatients_witness:
  "calm at_clinic \<and> patients_t (disk at_clinic) = Some [rex]
   \<and> (\<exists>r w1 rows w2.
        addPatient \<lparr>pt_id = 0, pt_name = Some ''Mia'', pt_species = Some ''cat'',
                    pt_breed = None, pt_owner_name = Some ''Ana''\<rparr> at_clinic = (Inr r, w1)
      \<and> getPatients w1 = (Inr rows, w2)
      \<and> sorted (map p_name rows)
      \<and> (\<exists>row \<in> set rows. p_id row = lastInsertId r \<and> p_name row = ''Mia''
           \<and> p_species row = Some ''cat'' \<and> p_breed row = None
           \<and> p_owner_name row = Some ''Ana'')
      \<and> rex \<in> set rows \<and> p_id rex \<noteq> lastInsertId r)"
  using addPatient_then_getPatients [OF calm_at_clinic, of "[rex]"
      "\<lparr>pt_id = 0, pt_name = Some ''Mia'', pt_species = Some ''cat'',
        pt_breed = None, pt_owner_name = Some ''Ana''\<rparr>" "''Mia''"]
  by (simp add: at_clinic_def clinic_def calm_def)

subsection \<open>C6: deleting a patient\<close>

text \<open>Every statement of the source keeps the foreign key of \<open>exams\<close>.\<close>

lemma update_keeps_patient_ids:
  "map p_id (map (\<lambda>p. if p_id p = i
      then p\<lparr>p_name := n, p_species := sp, p_breed := b, p_owner_name := ow\<rparr> else p) ps)
   = map p_id ps"
  by (induction ps) auto

lemma engine_execute_keeps_foreign_key:
  assumes "engine_execute s now d = Inr (r, d')" and "foreign_key_holds d"
  shows "foreign_key_holds d'"
proof (cases s)
  case (InsertExam pid ty data)
  with assms show ?thesis
    by (auto simp: foreign_key_holds_def done_with_def Let_def list_all_iff
        split: option.splits if_splits)
next
  case (DeletePatient i)
  with assms show ?thesis
    by (fastforce simp: foreign_key_holds_def done_with_def list_all_iff image_iff
        split: option.splits if_splits)
next
  case (UpdatePatient n sp b ow i)
  with assms show ?thesis
    by (auto simp: foreign_key_holds_def done_with_def update_keeps_patient_ids
        simp del: set_map map_map split: option.splits if_splits)
next
  case (UpdateExam data i)
  with assms show ?thesis
    by (auto simp: foreign_key_holds_def done_with_def list_all_iff
        split: option.splits if_splits)
qed (use assms in \<open>auto simp: foreign_key_holds_def done_with_def Let_def list_all_iff
        split: option.splits if_splits\<close>)

text \<open>So does every call of the service, from a file without tables on.\<close>

lemma foreign_key_holds_blank: "foreign_key_holds blank"
  by (simp add: foreign_key_holds_def blank_def)

lemma draw_keeps_disk: "disk (snd (draw w)) = disk w"
  by (simp add: draw_def split: list.splits)

lemma ensure_open_keeps_disk: "disk (snd (ensure_open w)) = disk w"
  by (simp add: ensure_open_def open_db_def Database_load_def draw_def print_def
      split: list.splits bool.splits)

lemma db_execute_keeps_foreign_key:
  assumes "foreign_key_holds (disk w)"
  shows "foreign_key_holds (disk (snd (db_execute s w)))"
proof (cases "engine_execute s (clock (snd (draw w))) (disk w)")
  case (Inl e)
  with assms show ?thesis
    by (simp add: db_execute_def draw_def split: list.splits bool.splits)
next
  case (Inr rd)
  obtain r d where "rd = (r, d)" by (cases rd)
  with Inr engine_execute_keeps_foreign_key [OF _ assms, of s _ r d] assms show ?thesis
    by (simp add: db_execute_def draw_def split: list.splits bool.splits)
qed

lemma execute_keeps_foreign_key:
  assumes "foreign_key_holds (disk w)"
  shows "foreign_key_holds (disk (snd (execute s w)))"
proof -
  obtain res w1 where o: "ensure_open w = (res, w1)" by (cases "ensure_open w")
  with ensure_open_keeps_disk [of w] assms have w1: "foreign_key_holds (disk w1)" by simp
  obtain res2 w2 where e: "db_execute s w1 = (res2, w2)" by (cases "db_execute s w1")
  with db_execute_keeps_foreign_key [OF w1, of s] have "foreign_key_holds (disk w2)" by simp
  with o e w1 show ?thesis
    by (cases res; cases res2) (simp_all add: execute_def print_def)
qed

lemma run_statements_keeps_foreign_key:
  "foreign_key_holds (disk w) \<Longrightarrow> foreign_key_holds (disk (snd (run_statements sqls w)))"
proof (induction sqls arbitrary: w)
  case Nil
  then show ?case by simp
next
  case (Cons sql rest)
  obtain res w1 where e: "db_execute sql w = (res, w1)" by (cases "db_execute sql w")
  with db_execute_keeps_foreign_key [OF Cons.prems, of sql] have "foreign_key_holds (disk w1)"
    by simp
  with e Cons.IH [of w1] show ?case by (cases res) simp_all
qed

lemma createTables_keeps_foreign_key:
  assumes "foreign_key_holds (disk w)"
  shows "foreign_key_holds (disk (snd (createTables w)))"
proof -
  obtain res w1 where o: "ensure_open w = (res, w1)" by (cases "ensure_open w")
  with ensure_open_keeps_disk [of w] assms have w1: "foreign_key_holds (disk w1)" by simp
  obtain err w2 where r: "run_statements tablesSql w1 = (err, w2)"
    by (cases "run_statements tablesSql w1")
  with run_statements_keeps_foreign_key [OF w1, of tablesSql] have "foreign_key_holds (disk w2)"
    by simp
  with o r w1 show ?thesis
    by (cases res; cases err) (simp_all add: createTables_def print_def)
qed

text \<open>
  C6. In a database whose exams all belong to a patient (the foreign key that
  \<open>createTables\<close> declares, and that every statement keeps), \<open>deletePatient\<close> and
  then \<open>getExamsByPatientId\<close> with the same id resolve (the plugin rejecting no call,
  and both tables being there), the second with no row; the exams of the other
  patients stay.
\<close>

theorem deletePatient_deletes_exams:
  assumes "calm w" and "foreign_key_holds (disk w)"
    and "patients_t (disk w) = Some ps" and "exams_t (disk w) = Some es"
  shows "\<exists>r w1 w2. deletePatient p w = (Inr r, w1) \<and> getExamsByPatientId p w1 = (Inr [], w2)
     \<and> exams_t (disk w1) = Some (filter (\<lambda>e. e_patient_id e \<noteq> p) es)"
proof -
  let ?kept = "filter (\<lambda>e. e_patient_id e \<noteq> p) es"
  have "\<exists>r d. engine_execute (DeletePatient p) (clock w) (disk w) = Inr (r, d)
          \<and> exams_t d = Some ?kept"
  proof (cases "\<forall>x \<in> set ps. p_id x \<noteq> p")
    case True
    with assms(2-4) have "\<forall>e \<in> set es. e_patient_id e \<noteq> p"
      by (fastforce simp: foreign_key_holds_def list_all_iff image_iff)
    then have "?kept = es" by (simp add: filter_all_match)
    with True assms(3,4) show ?thesis by (simp add: done_with_def)
  next
    case False
    with assms(3,4) show ?thesis by (auto simp: done_with_def)
  qed
  then obtain r d where
    d: "engine_execute (DeletePatient p) (clock w) (disk w) = Inr (r, d)" "exams_t d = Some ?kept"
    by blast
  from execute_calm [OF assms(1) d(1)] obtain w1 where
    w1: "deletePatient p w = (Inr r, w1)" "disk w1 = d" "calm w1"
    by (auto simp: deletePatient_def)
  have "filter (\<lambda>e. e_patient_id e = p) ?kept = []" by (induction es) auto
  with d(2) w1(2) have "select_exams_by_patient p (disk w1) = Inr []"
    by (simp add: select_exams_by_patient_def)
  with query_calm [OF w1(3), of "select_exams_by_patient p"] obtain w2 where
    "getExamsByPatientId p w1 = (Inr [], w2)"
    by (auto simp: getExamsByPatientId_def)
  with w1 d(2) show ?thesis by blast
qed

lemma foreign_key_holds_clinic: "foreign_key_holds clinic"
  by (simp add: foreign_key_holds_def clinic_def rex_def xray_def)

theorem deletePatient_deletes_exams_witness:
  "calm at_clinic \<and> foreign_key_holds (disk at_clinic)
   \<and> patients_t (disk at_clinic) = Some [rex] \<and> exams_t (disk at_clinic) = Some [xray]
   \<and> (\<exists>r w1 w2. deletePatient 1 at_clinic = (Inr r, w1)
        \<and> getExamsByPatientId 1 w1 = (Inr [], w2) \<and> exams_t (disk w1) = Some [])"
  using deletePatient_deletes_exams [OF calm_at_clinic, of "[rex]" "[xray]" 1]
    foreign_key_holds_clinic
  by (simp add: at_clinic_def clinic_def calm_def xray_def)

subsection \<open>C7: the payload on the two reads of an exam\<close>

text \<open>
  \<open>getExamsByPatientId\<close> returns the rows of the query as they are: the \<open>exam_data\<close>
  of each is the stored text (a string), or \<open>null\<close>.
\<close>

lemma getExamsByPatientId_returns_stored_text:
  assumes "getExamsByPatientId p w = (Inr rows, w')" and "x \<in> set rows"
  shows "o_exam_data x = JNull \<or> (\<exists>text. o_exam_data x = JStr text)"
proof -
  from assms(1) have "\<exists>d. select_exams_by_patient p d = Inr rows"
    by (auto simp: getExamsByPatientId_def query_def db_select_def
        split: prod.splits sum.splits bool.splits)
  then obtain d es where "rows = map row_object (filter (\<lambda>e. e_patient_id e = p) es)"
    by (auto simp: select_exams_by_patient_def split: option.splits)
  with assms(2) obtain e where "x = row_object e" by auto
  then show ?thesis
    by (cases "e_exam_data e") (simp_all add: row_object_def column_text_def)
qed

text \<open>
  C7 fails on the code, for the read by patient. With Rex's exam in the database, whose
  stored payload is the text of \<open>{notes: "clear"}\<close>, \<open>getExamById\<close> returns the
  object, and \<open>getExamsByPatientId\<close> returns the text.
\<close>

theorem read_by_patient_does_not_parse:
  \<open>fst (getExamById 1 at_clinic)
     = Inr (Some \<lparr>o_id = 1, o_patient_id = 1, o_exam_type = ''xray'',
                   o_exam_data = JObj [(js ''notes'', JStr (js ''clear''))],
                   o_created_at = 11, o_updated_at = 11\<rparr>)
   \<and> fst (getExamsByPatientId 1 at_clinic)
     = Inr [\<lparr>o_id = 1, o_patient_id = 1, o_exam_type = ''xray'',
              o_exam_data = JStr (js ''{"notes":"clear"}''),
              o_created_at = 11, o_updated_at = 11\<rparr>]\<close>
  by (simp add: getExamById_def getExamsByPatientId_def query_def ensure_open_def open_db_def
      Database_load_def draw_def print_def db_select_def select_exam_by_id_def
      select_exams_by_patient_def at_clinic_def clinic_def xray_def row_object_def
      column_text_def js_def quote_def quote_unit_def is_high_def is_low_def JSON_parse_def skip_ws_def is_ws_def
      prepend_def object_of_def)

subsection \<open>C8: the start of the application\<close>

text \<open>
  C8 fails on the code. The class has no method \<open>init\<close>: the effect of \<open>App\<close> raises,
  \<open>createTables\<close> is not called, and the world is as it was. At the first start no
  table is there afterwards, and the first read of a view is rejected by the engine.
\<close>

theorem App_effect_calls_no_method:
  "App_effect w = (Inl NotAFunction, w)
   \<and> disk (snd (App_effect first_start)) = blank
   \<and> fst (getPatients (snd (App_effect first_start))) = Inl NoSuchTable
   \<and> disk (snd (createTables first_start))
       = blank\<lparr>patients_t := Some [], exams_t := Some [], settings_t := Some [],
                templates_t := Some [], reference_values_t := Some []\<rparr>"
  by (simp add: App_effect_def call_def DatabaseService_def first_start_def getPatients_def
      query_def ensure_open_def open_db_def Database_load_def draw_def print_def db_select_def
      select_patients_def blank_def createTables_def tablesSql_def db_execute_def done_with_def)

subsection \<open>C9: what \<open>updateExam\<close> changes\<close>

text \<open>
  C9. \<open>updateExam\<close> resolves (the plugin rejecting no call, and the table being there)
  and leaves a table of exams of the same length in which every row with the id of
  the exam has the serialized payload as \<open>exam_data\<close> and the time of the clock as
  \<open>updated_at\<close>, and its \<open>id\<close>, \<open>patient_id\<close>, \<open>exam_type\<close> and \<open>created_at\<close> as
  before; every other row is as before, and so is the rest of the database.
\<close>

theorem updateExam_changes_payload_and_updated_at_only:
  assumes "calm w" and "exams_t (disk w) = Some es"
  shows "\<exists>r w' es'. updateExam exam w = (Inr r, w')
     \<and> disk w' = (disk w)\<lparr>exams_t := Some es'\<rparr>
     \<and> length es' = length es
     \<and> (\<forall>k < length es.
          (e_id (es ! k) = ex_id exam \<longrightarrow>
             e_exam_data (es' ! k) = Some (JSON_stringify (ex_exam_data exam))
           \<and> e_updated_at (es' ! k) = clock w
           \<and> e_id (es' ! k) = e_id (es ! k)
           \<and> e_patient_id (es' ! k) = e_patient_id (es ! k)
           \<and> e_exam_type (es' ! k) = e_exam_type (es ! k)
           \<and> e_created_at (es' ! k) = e_created_at (es ! k))
        \<and> (e_id (es ! k) \<noteq> ex_id exam \<longrightarrow> es' ! k = es ! k))"
proof -
  let ?text = "JSON_stringify (ex_exam_data exam)"
  let ?es' = "map (\<lambda>e. if e_id e = ex_id exam
                then e\<lparr>e_exam_data := Some ?text, e_updated_at := clock w\<rparr> else e) es"
  let ?r = "\<lparr>rowsAffected = length (filter (\<lambda>e. e_id e = ex_id exam) es),
             lastInsertId = last_insert_rowid (disk w)\<rparr>"
  from assms(2)
  have "engine_execute (UpdateExam (Some ?text) (ex_id exam)) (clock w) (disk w)
          = Inr (?r, (disk w)\<lparr>exams_t := Some ?es'\<rparr>)"
    by (simp add: done_with_def)
  from execute_calm [OF assms(1) this] obtain w' where
    "updateExam exam w = (Inr ?r, w')" "disk w' = (disk w)\<lparr>exams_t := Some ?es'\<rparr>"
    by (auto simp: updateExam_def)
  moreover have "length ?es' = length es" by simp
  moreover have "\<forall>k < length es.
          (e_id (es ! k) = ex_id exam \<longrightarrow>
             e_exam_data (?es' ! k) = Some ?text
           \<and> e_updated_at (?es' ! k) = clock w
           \<and> e_id (?es' ! k) = e_id (es ! k)
           \<and> e_patient_id (?es' ! k) = e_patient_id (es ! k)
           \<and> e_exam_type (?es' ! k) = e_exam_type (es ! k)
           \<and> e_created_at (?es' ! k) = e_created_at (es ! k))
        \<and> (e_id (es ! k) \<noteq> ex_id exam \<longrightarrow> ?es' ! k = es ! k)"
    by simp
  ultimately show ?thesis by blast
qed

theorem updateExam_changes_payload_and_updated_at_only_witness:
  "calm at_clinic \<and> exams_t (disk at_clinic) = Some [xray]
   \<and> (\<exists>r w' es'. updateExam \<lparr>ex_id = 1, ex_patient_id = None, ex_exam_type = None,
                                ex_exam_data = JArr []\<rparr> at_clinic = (Inr r, w')
        \<and> disk w' = clinic\<lparr>exams_t := Some es'\<rparr>
        \<and> length es' = 1
        \<and> e_exam_data (es' ! 0) = Some (js ''[]'')
        \<and> e_updated_at (es' ! 0) = 20
        \<and> e_id (es' ! 0) = 1
        \<and> e_patient_id (es' ! 0) = 1
        \<and> e_exam_type (es' ! 0) = ''xray''
        \<and> e_created_at (es' ! 0) = 11)"
  using updateExam_changes_payload_and_updated_at_only [OF calm_at_clinic, of "[xray]"
      "\<lparr>ex_id = 1, ex_patient_id = None, ex_exam_type = None, ex_exam_data = JArr []\<rparr>"]
  by (simp add: at_clinic_def clinic_def xray_def calm_def js_def)

subsection \<open>C10: an id that matches no row\<close>

text \<open>
  C10. When the id matches no row of the table, \<open>deletePatient\<close>, \<open>deleteExam\<close>,
  \<open>deleteTemplate\<close> and \<open>updatePatient\<close> resolve, with \<open>rowsAffected = 0\<close>, and
  leave the database as it was (the plugin rejecting no call, and the table being there).
\<close>

theorem missing_id_affects_no_row:
  assumes "calm w"
  shows "(patients_t (disk w) = Some ps \<and> (\<forall>p \<in> set ps. p_id p \<noteq> i) \<longrightarrow>
            (\<exists>r w'. deletePatient i w = (Inr r, w') \<and> rowsAffected r = 0 \<and> disk w' = disk w))
       \<and> (exams_t (disk w) = Some es \<and> (\<forall>e \<in> set es. e_id e \<noteq> i) \<longrightarrow>
            (\<exists>r w'. deleteExam i w = (Inr r, w') \<and> rowsAffected r = 0 \<and> disk w' = disk w))
       \<and> (templates_t (disk w) = Some ts \<and> (\<forall>t \<in> set ts. t_id t \<noteq> i) \<longrightarrow>
            (\<exists>r w'. deleteTemplate i w = (Inr r, w') \<and> rowsAffected r = 0 \<and> disk w' = disk w))
       \<and> (patients_t (disk w) = Some ps \<and> (\<forall>p \<in> set ps. p_id p \<noteq> pt_id patient) \<longrightarrow>
            (\<exists>r w'. updatePatient patient w = (Inr r, w') \<and> rowsAffected r = 0
               \<and> disk w' = disk w))"
proof (intro conjI impI)
  let ?r = "\<lparr>rowsAffected = 0, lastInsertId = last_insert_rowid (disk w)\<rparr>"
  {
    assume "patients_t (disk w) = Some ps \<and> (\<forall>p \<in> set ps. p_id p \<noteq> i)"
    then have "engine_execute (DeletePatient i) (clock w) (disk w) = Inr (?r, disk w)"
      by (simp add: done_with_def)
    from execute_calm [OF assms this]
    show "\<exists>r w'. deletePatient i w = (Inr r, w') \<and> rowsAffected r = 0 \<and> disk w' = disk w"
      by (auto simp: deletePatient_def)
  }
  {
    assume "exams_t (disk w) = Some es \<and> (\<forall>e \<in> set es. e_id e \<noteq> i)"
    then have "engine_execute (DeleteExam i) (clock w) (disk w) = Inr (?r, disk w)"
      by (simp add: done_with_def filter_no_match filter_all_match)
    from execute_calm [OF assms this]
    show "\<exists>r w'. deleteExam i w = (Inr r, w') \<and> rowsAffected r = 0 \<and> disk w' = disk w"
      by (auto simp: deleteExam_def)
  }
  {
    assume "templates_t (disk w) = Some ts \<and> (\<forall>t \<in> set ts. t_id t \<noteq> i)"
    then have "engine_execute (DeleteTemplate i) (clock w) (disk w) = Inr (?r, disk w)"
      by (simp add: done_with_def filter_no_match filter_all_match)
    from execute_calm [OF assms this]
    show "\<exists>r w'. deleteTemplate i w = (Inr r, w') \<and> rowsAffected r = 0 \<and> disk w' = disk w"
      by (auto simp: deleteTemplate_def)
  }
  {
    assume "patients_t (disk w) = Some ps \<and> (\<forall>p \<in> set ps. p_id p \<noteq> pt_id patient)"
    then have "engine_execute (UpdatePatient (pt_name patient) (pt_species patient)
        (pt_breed patient) (pt_owner_name patient) (pt_id patient)) (clock w) (disk w)
      = Inr (?r, disk w)"
      by (simp add: done_with_def)
    from execute_calm [OF assms this]
    show "\<exists>r w'. updatePatient patient w = (Inr r, w') \<and> rowsAffected r = 0 \<and> disk w' = disk w"
      by (auto simp: updatePatient_def)
  }
qed

theorem missing_id_affects_no_row_witness:
  "calm at_clinic
   \<and> patients_t (disk at_clinic) = Some [rex] \<and> p_id rex \<noteq> 7
   \<and> (\<exists>r w'. deletePatient 7 at_clinic = (Inr r, w') \<and> rowsAffected r = 0 \<and> disk w' = clinic)
   \<and> exams_t (disk at_clinic) = Some [xray] \<and> e_id xray \<noteq> 7
   \<and> (\<exists>r w'. deleteExam 7 at_clinic = (Inr r, w') \<and> rowsAffected r = 0 \<and> disk w' = clinic)
   \<and> templates_t (disk at_clinic) = Some [normal_abdomen] \<and> t_id normal_abdomen \<noteq> 7
   \<and> (\<exists>r w'. deleteTemplate 7 at_clinic = (Inr r, w') \<and> rowsAffected r = 0 \<and> disk w' = clinic)
   \<and> (\<exists>r w'. updatePatient \<lparr>pt_id = 7, pt_name = None, pt_species = None,
          pt_breed = None, pt_owner_name = None\<rparr> at_clinic = (Inr r, w') \<and> rowsAffected r = 0
          \<and> disk w' = clinic)"
  using missing_id_affects_no_row [OF calm_at_clinic, of "[rex]" 7 "[xray]" "[normal_abdomen]"
      "\<lparr>pt_id = 7, pt_name = None, pt_species = None, pt_breed = None, pt_owner_name = None\<rparr>"]
  by (simp add: at_clinic_def clinic_def rex_def xray_def normal_abdomen_def calm_def)

end
